theory Spec2Isabelle
  imports Complex_Main "HOL-Library.Monad_Syntax" "HOL-Library.AList"
begin

section \<open>Tensors\<close>

text \<open>
  A TensorFlow tensor is a shape together with its elements in row-major order.
  Floating-point numbers are modelled as reals.  An operation that raises (a shape
  error found while the graph is built or run) returns \<open>None\<close>.
\<close>

record 'a tensor =
  shape :: "nat list"
  elems :: "'a list"

type_synonym rtensor = "real tensor"

definition wf_tensor :: "'a tensor \<Rightarrow> bool" where
  "wf_tensor t = (length (elems t) = prod_list (shape t))"

definition scalar :: "'a \<Rightarrow> 'a tensor" where
  "scalar v = \<lparr>shape = [], elems = [v]\<rparr>"

text \<open>\<open>rows n k d\<close>: the \<open>k\<close> consecutive blocks of \<open>n\<close> elements of \<open>d\<close>.\<close>

definition rows :: "nat \<Rightarrow> nat \<Rightarrow> 'a list \<Rightarrow> 'a list list" where
  "rows n k d = map (\<lambda>i. take n (drop (i * n) d)) [0..<k]"

subsection \<open>Broadcasting element-wise operations\<close>

text \<open>Shapes are aligned from the last dimension; a dimension of size 1 is stretched.\<close>

fun bshape_rev :: "nat list \<Rightarrow> nat list \<Rightarrow> nat list option" where
  "bshape_rev [] ys = Some ys"
| "bshape_rev (x # xs) [] = Some (x # xs)"
| "bshape_rev (x # xs) (y # ys) =
     (if x = y \<or> y = 1 then map_option ((#) x) (bshape_rev xs ys)
      else if x = 1 then map_option ((#) y) (bshape_rev xs ys)
      else None)"

definition broadcast_shape :: "nat list \<Rightarrow> nat list \<Rightarrow> nat list option" where
  "broadcast_shape s1 s2 = map_option rev (bshape_rev (rev s1) (rev s2))"

fun expand :: "nat list \<Rightarrow> nat list \<Rightarrow> 'a list \<Rightarrow> 'a list" where
  "expand (a # as) (b # bs) d =
     (let sub = map (expand as bs) (rows (prod_list as) a d)
      in concat (if a = b then sub else concat (replicate b sub)))"
| "expand [] bs d = d"
| "expand (a # as) [] d = d"

definition broadcast_to :: "nat list \<Rightarrow> 'a tensor \<Rightarrow> 'a list" where
  "broadcast_to s t =
     expand (replicate (length s - length (shape t)) 1 @ shape t) s (elems t)"

definition tbin :: "('a \<Rightarrow> 'b \<Rightarrow> 'c) \<Rightarrow> 'a tensor \<Rightarrow> 'b tensor \<Rightarrow> 'c tensor option" where
  "tbin f x y =
     (case broadcast_shape (shape x) (shape y) of
        None \<Rightarrow> None
      | Some s \<Rightarrow> Some \<lparr>shape = s, elems = map2 f (broadcast_to s x) (broadcast_to s y)\<rparr>)"

definition tmap :: "('a \<Rightarrow> 'b) \<Rightarrow> 'a tensor \<Rightarrow> 'b tensor" where
  "tmap f x = \<lparr>shape = shape x, elems = map f (elems x)\<rparr>"

definition tadd :: "rtensor \<Rightarrow> rtensor \<Rightarrow> rtensor option" where
  "tadd = tbin (+)"

definition tsub :: "rtensor \<Rightarrow> rtensor \<Rightarrow> rtensor option" where
  "tsub = tbin (-)"

definition tmul :: "rtensor \<Rightarrow> rtensor \<Rightarrow> rtensor option" where
  "tmul = tbin (*)"

section \<open>Random draws\<close>

text \<open>
  A random op draws from a stream that is a parameter of the model: \<open>rng i\<close> is the raw
  draw for element \<open>i\<close> of the op's result.
\<close>

type_synonym rng = "nat \<Rightarrow> real"

text \<open>
  \<open>tf.nn.dropout(x, keep_prob)\<close> is \<open>x / keep_prob * floor(keep_prob + u)\<close> with \<open>u\<close>
  uniform in \<open>[0, 1)\<close>, element by element; a \<open>keep_prob\<close> outside \<open>(0, 1]\<close> raises.
\<close>

definition nn_dropout :: "rng \<Rightarrow> rtensor \<Rightarrow> real \<Rightarrow> rtensor option" where
  "nn_dropout rng x keep_prob =
     (if 0 < keep_prob \<and> keep_prob \<le> 1 then
        Some \<lparr>shape = shape x,
              elems = map (\<lambda>i. elems x ! i / keep_prob * (if 1 \<le> keep_prob + rng i then 1 else 0))
                        [0..<length (elems x)]\<rparr>
      else None)"

section \<open>Hyperparameters and the layers library\<close>

datatype mode_key = TRAIN | EVAL | PREDICT

record hparams =
  hidden_size :: int
  dropout :: real
  layer_prepostprocess_dropout :: real
  z_size :: int
  v_size :: int
  num_compress_steps :: int
  kl_warmup_steps :: int
  startup_steps :: int
  kmeans_lr_factor :: real
  z_dropout :: real
  is_2d :: bool
  mode :: mode_key

text \<open>A variable scope is the path of scope names from the outermost one.\<close>

type_synonym scope = "string list"

record conv_kwargs =
  padding :: "string option"
  strides :: "(int \<times> int) option"
  first_relu :: "bool option"

text \<open>
  The functions of \<open>common_layers\<close> and of TensorFlow's layers that the module calls and
  that are defined elsewhere are parameters of the model.  Each takes the scope it is
  called in, which names its variables; \<open>dropout_rng\<close> gives the random stream of the
  dropout op of a scope.
\<close>

record layers =
  common_layers_layer_norm :: "scope \<Rightarrow> rtensor \<Rightarrow> int \<Rightarrow> rtensor option"
  common_layers_conv_block ::
    "scope \<Rightarrow> rtensor \<Rightarrow> int \<Rightarrow> ((int \<times> int) \<times> (int \<times> int)) list \<Rightarrow> conv_kwargs
       \<Rightarrow> rtensor option"
  dropout_rng :: "scope \<Rightarrow> rng"

text \<open>Python's \<open>"%d" % i\<close>.\<close>

fun digits :: "nat \<Rightarrow> string" where
  "digits n = (if n < 10 then [char_of (48 + n)] else digits (n div 10) @ [char_of (48 + n mod 10)])"

definition fmt_d :: "int \<Rightarrow> string" where
  "fmt_d i = (if i < 0 then CHR ''-'' # digits (nat (- i)) else digits (nat i))"

section \<open>residual\_conv\<close>

function residual_conv_loop ::
  "layers \<Rightarrow> hparams \<Rightarrow> scope \<Rightarrow> (int \<times> int) \<Rightarrow> int \<Rightarrow> int \<Rightarrow> rtensor \<Rightarrow> rtensor option" where
  "residual_conv_loop L hp sc k i repeat x =
     (if i < repeat then
        do {
          let dilations_and_kernels = [((1, 1), k), ((1, 1), k), ((1, 1), k)];
          let sc' = sc @ [''repeat_'' @ fmt_d i];
          n \<leftarrow> common_layers_layer_norm L (sc' @ [''lnorm'']) x (hidden_size hp);
          y \<leftarrow> common_layers_conv_block L (sc' @ [''residual_conv'']) n (hidden_size hp)
                 dilations_and_kernels
                 \<lparr>padding = Some ''SAME'', strides = None, first_relu = None\<rparr>;
          y \<leftarrow> nn_dropout (dropout_rng L sc') y (1.0 - dropout hp);
          x \<leftarrow> tadd x y;
          residual_conv_loop L hp sc k (i + 1) repeat x
        }
      else Some x)"
  by pat_completeness auto
termination
  by (relation "measure (\<lambda>(L, hp, sc, k, i, repeat, x). nat (repeat - i))") auto

definition residual_conv ::
  "layers \<Rightarrow> rtensor \<Rightarrow> int \<Rightarrow> (int \<times> int) \<Rightarrow> hparams \<Rightarrow> string \<Rightarrow> scope \<Rightarrow> rtensor option" where
  "residual_conv L x repeat k hp name outer = residual_conv_loop L hp (outer @ [name]) k 0 repeat x"

text \<open>
  The specification's words: one step is \<open>x <- x + dropout(conv_block(layer_norm(x)))\<close>, in the
  scope of its repetition; \<open>residual_steps n\<close> performs the steps \<open>0, ..., n - 1\<close> in order.
\<close>

definition residual_step :: "layers \<Rightarrow> hparams \<Rightarrow> scope \<Rightarrow> (int \<times> int) \<Rightarrow> nat \<Rightarrow> rtensor \<Rightarrow> rtensor option" where
  "residual_step L hp sc k i x =
     Option.bind
       (Option.bind
          (Option.bind
             (common_layers_layer_norm L (sc @ [''repeat_'' @ fmt_d (int i), ''lnorm'']) x (hidden_size hp))
             (\<lambda>n. common_layers_conv_block L (sc @ [''repeat_'' @ fmt_d (int i), ''residual_conv'']) n
                    (hidden_size hp) (replicate 3 ((1, 1), k))
                    \<lparr>padding = Some ''SAME'', strides = None, first_relu = None\<rparr>))
          (\<lambda>c. nn_dropout (dropout_rng L (sc @ [''repeat_'' @ fmt_d (int i)])) c (1 - dropout hp)))
       (\<lambda>y. tadd x y)"

primrec residual_steps :: "layers \<Rightarrow> hparams \<Rightarrow> scope \<Rightarrow> (int \<times> int) \<Rightarrow> nat \<Rightarrow> rtensor \<Rightarrow> rtensor option" where
  "residual_steps L hp sc k 0 x = Some x"
| "residual_steps L hp sc k (Suc n) x =
     Option.bind (residual_steps L hp sc k n x) (residual_step L hp sc k n)"

section \<open>Random sources and special floating-point values\<close>

text \<open>
  For \<open>tf.random_uniform\<close> the raw draws lie in \<open>[0, 1)\<close> and are scaled to
  \<open>[minval, maxval)\<close>; for \<open>tf.random_normal\<close> they are the samples themselves.
\<close>

definition tf_random_uniform :: "rng \<Rightarrow> nat list \<Rightarrow> real \<Rightarrow> real \<Rightarrow> rtensor" where
  "tf_random_uniform rng shp minval maxval =
     \<lparr>shape = shp, elems = map (\<lambda>i. minval + rng i * (maxval - minval)) [0..<prod_list shp]\<rparr>"

definition tf_random_normal :: "rng \<Rightarrow> nat list \<Rightarrow> rtensor" where
  "tf_random_normal rng shp = \<lparr>shape = shp, elems = map rng [0..<prod_list shp]\<rparr>"

text \<open>
  Where overflow matters, a float is a real number or one of the special
  values: \<open>tf.log\<close> of zero is minus infinity, of a negative number it is not a number.
\<close>

datatype xreal = Fin real | PInf | NInf | NaN

fun tf_log :: "xreal \<Rightarrow> xreal" where
  "tf_log (Fin x) = (if 0 < x then Fin (ln x) else if x = 0 then NInf else NaN)"
| "tf_log PInf = PInf"
| "tf_log NInf = NaN"
| "tf_log NaN = NaN"

fun xneg :: "xreal \<Rightarrow> xreal" where
  "xneg (Fin x) = Fin (- x)"
| "xneg PInf = NInf"
| "xneg NInf = PInf"
| "xneg NaN = NaN"

section \<open>gumbel\_sample\<close>

definition gumbel_sample :: "rng \<Rightarrow> nat list \<Rightarrow> xreal tensor" where
  "gumbel_sample rng shp =
     (let uniform_samples = tf_random_uniform rng shp 0.00001 0.99998
      in tmap xneg (tmap tf_log (tmap xneg (tmap tf_log (tmap Fin uniform_samples)))))"

section \<open>mix\<close>

definition tf_less :: "rtensor \<Rightarrow> rtensor \<Rightarrow> bool tensor option" where
  "tf_less = tbin (<)"

definition tf_to_float :: "bool tensor \<Rightarrow> rtensor" where
  "tf_to_float = tmap (\<lambda>b. if b then 1 else 0)"

text \<open>
  \<open>common_layers.inverse_lin_decay\<close> and \<open>inverse_exp_decay\<close> are defined elsewhere; their
  values at the current training step are parameters.
\<close>

record decays =
  common_layers_inverse_lin_decay :: "int \<Rightarrow> real"
  common_layers_inverse_exp_decay :: "int \<Rightarrow> real"

definition mix ::
  "decays \<Rightarrow> rng \<Rightarrow> rtensor \<Rightarrow> rtensor \<Rightarrow> int \<Rightarrow> real \<Rightarrow> real \<Rightarrow> string \<Rightarrow> bool \<Rightarrow> rtensor option" where
  "mix D rng x1 x2 steps min_prob max_prob mode_str simple =
     (let alpha_p = (if mode_str = ''lin'' then common_layers_inverse_lin_decay D steps
                     else common_layers_inverse_exp_decay D steps);
          alpha_p = alpha_p * (max_prob - min_prob) + min_prob
      in if simple then
           do {
             a \<leftarrow> tmul (scalar alpha_p) x1;
             b \<leftarrow> tmul (scalar (1.0 - alpha_p)) x2;
             tadd a b
           }
         else
           do {
             let alpha = tf_random_uniform rng (shape x1) 0 1;
             less \<leftarrow> tf_less alpha (scalar alpha_p);
             let alpha = tf_to_float less;
             a \<leftarrow> tmul alpha x1;
             c \<leftarrow> tsub (scalar 1.0) alpha;
             b \<leftarrow> tmul c x2;
             tadd a b
           })"

section \<open>TensorFlow operations of the quantizer\<close>

text \<open>\<open>tf.stop_gradient\<close> is the identity on values; gradients are not modelled.\<close>

definition tf_stop_gradient :: "'a tensor \<Rightarrow> 'a tensor" where
  "tf_stop_gradient x = x"

text \<open>\<open>tf.shape(x)[i]\<close>: out of range raises.\<close>

definition shape_at :: "'a tensor \<Rightarrow> nat \<Rightarrow> int option" where
  "shape_at x i = (if i < length (shape x) then Some (int (shape x ! i)) else None)"

text \<open>
  \<open>tf.reshape\<close>: at most one dimension may be \<open>-1\<close>; it is inferred from the number of
  elements, which the other dimensions must divide.
\<close>

definition tf_reshape :: "'a tensor \<Rightarrow> int list \<Rightarrow> 'a tensor option" where
  "tf_reshape t dims =
     (let n = int (length (elems t));
          known = prod_list (filter (\<lambda>d. d \<noteq> - 1) dims);
          unknown = length (filter (\<lambda>d. d = - 1) dims)
      in if list_ex (\<lambda>d. d < - 1) dims \<or> 1 < unknown then None
         else if unknown = 1 then
           (if known \<le> 0 \<or> n mod known \<noteq> 0 then None
            else Some \<lparr>shape = map (\<lambda>d. nat (if d = - 1 then n div known else d)) dims,
                       elems = elems t\<rparr>)
         else if known = n then Some \<lparr>shape = map nat dims, elems = elems t\<rparr>
         else None)"

text \<open>
  \<open>tf.nn.l2_normalize(x, dim)\<close> is \<open>x * rsqrt(maximum(reduce_sum(square(x), dim), 1e-12))\<close>.
  Only normalization along the last axis is modelled, which is how the module uses it.
\<close>

definition l2_row :: "real list \<Rightarrow> real list" where
  "l2_row r = map (\<lambda>v. v / sqrt (max (sum_list (map (\<lambda>v. v * v) r)) (1 / 10 ^ 12))) r"

definition tf_nn_l2_normalize :: "rtensor \<Rightarrow> int \<Rightarrow> rtensor option" where
  "tf_nn_l2_normalize x axis =
     (if shape x \<noteq> [] \<and> axis = int (length (shape x)) - 1 then
        Some \<lparr>shape = shape x,
              elems = concat (map l2_row
                        (rows (last (shape x)) (prod_list (butlast (shape x))) (elems x)))\<rparr>
      else None)"

definition dot :: "real list \<Rightarrow> real list \<Rightarrow> real" where
  "dot u v = sum_list (map2 (*) u v)"

text \<open>\<open>tf.matmul\<close> of two matrices, the second one transposed on request.\<close>

definition tf_matmul :: "rtensor \<Rightarrow> rtensor \<Rightarrow> bool \<Rightarrow> rtensor option" where
  "tf_matmul a b transpose_b =
     (if length (shape a) = 2 \<and> length (shape b) = 2 then
        (let n = shape a ! 0; k = shape a ! 1; p = shape b ! 0; q = shape b ! 1;
             ra = rows k n (elems a); rb = rows q p (elems b)
         in if transpose_b then
              (if k = q then
                 Some \<lparr>shape = [n, p], elems = concat (map (\<lambda>r. map (dot r) rb) ra)\<rparr>
               else None)
            else
              (if k = p then
                 Some \<lparr>shape = [n, q],
                       elems = concat (map (\<lambda>r. map (\<lambda>j. dot r (map (\<lambda>c. c ! j) rb)) [0..<q]) ra)\<rparr>
               else None))
      else None)"

definition tf_neg :: "rtensor \<Rightarrow> rtensor" where
  "tf_neg = tmap uminus"

definition tf_square :: "rtensor \<Rightarrow> rtensor" where
  "tf_square = tmap (\<lambda>v. v * v)"

text \<open>The index of the first greatest element (ties go to the lower index).\<close>

fun argmax_from :: "nat \<Rightarrow> real \<Rightarrow> nat \<Rightarrow> real list \<Rightarrow> nat" where
  "argmax_from bi bv i [] = bi"
| "argmax_from bi bv i (x # xs) =
     (if bv < x then argmax_from i x (Suc i) xs else argmax_from bi bv (Suc i) xs)"

definition argmax_list :: "real list \<Rightarrow> nat" where
  "argmax_list xs = (case xs of [] \<Rightarrow> 0 | x # r \<Rightarrow> argmax_from 0 x 1 r)"

text \<open>\<open>tf.nn.top_k(x, k=1)\<close>: the greatest entry of each row and its index.\<close>

definition tf_nn_top_k_1 :: "rtensor \<Rightarrow> (rtensor \<times> int tensor) option" where
  "tf_nn_top_k_1 x =
     (if shape x \<noteq> [] \<and> 1 \<le> last (shape x) then
        (let rs = rows (last (shape x)) (prod_list (butlast (shape x))) (elems x)
         in Some (\<lparr>shape = butlast (shape x) @ [1], elems = map (\<lambda>r. r ! argmax_list r) rs\<rparr>,
                  \<lparr>shape = butlast (shape x) @ [1], elems = map (\<lambda>r. int (argmax_list r)) rs\<rparr>))
      else None)"

definition tf_squeeze :: "'a tensor \<Rightarrow> nat \<Rightarrow> 'a tensor option" where
  "tf_squeeze x axis =
     (if axis < length (shape x) \<and> shape x ! axis = 1 then
        Some \<lparr>shape = take axis (shape x) @ drop (Suc axis) (shape x), elems = elems x\<rparr>
      else None)"

text \<open>\<open>tf.one_hot\<close>: an index outside \<open>[0, depth)\<close> gives a row of zeros.\<close>

definition one_hot_row :: "nat \<Rightarrow> int \<Rightarrow> real list" where
  "one_hot_row depth i = map (\<lambda>j. if int j = i then 1 else 0) [0..<depth]"

definition tf_one_hot :: "int tensor \<Rightarrow> int \<Rightarrow> rtensor option" where
  "tf_one_hot idx depth =
     (if depth < 0 then None
      else Some \<lparr>shape = shape idx @ [nat depth],
                 elems = concat (map (one_hot_row (nat depth)) (elems idx))\<rparr>)"

text \<open>\<open>tf.argmax(x, axis=-1)\<close>.\<close>

definition tf_argmax :: "rtensor \<Rightarrow> int tensor option" where
  "tf_argmax x =
     (if shape x \<noteq> [] \<and> 1 \<le> last (shape x) then
        Some \<lparr>shape = butlast (shape x),
              elems = map (\<lambda>r. int (argmax_list r))
                        (rows (last (shape x)) (prod_list (butlast (shape x))) (elems x))\<rparr>
      else None)"

text \<open>\<open>tf.gather(params, indices)\<close> along axis 0; an index out of range raises.\<close>

definition tf_gather :: "rtensor \<Rightarrow> int tensor \<Rightarrow> rtensor option" where
  "tf_gather params idx =
     (if shape params \<noteq> [] \<and> list_all (\<lambda>i. 0 \<le> i \<and> i < int (hd (shape params))) (elems idx) then
        (let sz = prod_list (tl (shape params))
         in Some \<lparr>shape = shape idx @ tl (shape params),
                  elems = concat (map (\<lambda>i. take sz (drop (nat i * sz) (elems params))) (elems idx))\<rparr>)
      else None)"

text \<open>\<open>tf.reduce_sum(x, axis=-1)\<close>.\<close>

definition tf_reduce_sum_last :: "rtensor \<Rightarrow> rtensor option" where
  "tf_reduce_sum_last x =
     (if shape x \<noteq> [] then
        Some \<lparr>shape = butlast (shape x),
              elems = map sum_list (rows (last (shape x)) (prod_list (butlast (shape x))) (elems x))\<rparr>
      else None)"

text \<open>
  \<open>tf.reduce_mean\<close>, over all elements and along the last axis.  The mean of no
  elements is not a real number (TensorFlow gives NaN): \<open>None\<close>.
\<close>

definition mean :: "real list \<Rightarrow> real" where
  "mean xs = sum_list xs / real (length xs)"

definition tf_reduce_mean :: "rtensor \<Rightarrow> real option" where
  "tf_reduce_mean x = (if elems x = [] then None else Some (mean (elems x)))"

definition tf_reduce_mean_last :: "rtensor \<Rightarrow> rtensor option" where
  "tf_reduce_mean_last x =
     (if shape x \<noteq> [] \<and> 1 \<le> last (shape x) then
        Some \<lparr>shape = butlast (shape x),
              elems = map mean (rows (last (shape x)) (prod_list (butlast (shape x))) (elems x))\<rparr>
      else None)"

section \<open>nearest and kmeans\<close>

definition nearest :: "rtensor \<Rightarrow> rtensor \<Rightarrow> hparams \<Rightarrow> rtensor option" where
  "nearest x0 means0 hp =
     do {
       let x = tf_stop_gradient x0;
       let means = tf_stop_gradient means0;
       means \<leftarrow> tf_nn_l2_normalize means 1;
       x_flat \<leftarrow> tf_reshape x [- 1, hidden_size hp];
       sims \<leftarrow> tf_matmul x_flat means True;
       let dist = tf_neg sims;
       (vals, nearest_idx) \<leftarrow> tf_nn_top_k_1 (tf_neg dist);
       idx \<leftarrow> tf_squeeze nearest_idx 1;
       nearest_hot \<leftarrow> tf_one_hot idx (v_size hp);
       d0 \<leftarrow> shape_at x 0;
       d1 \<leftarrow> shape_at x 1;
       d2 \<leftarrow> shape_at x 2;
       nearest_hot \<leftarrow> tf_reshape nearest_hot [d0, d1, d2, v_size hp];
       Some (tf_stop_gradient nearest_hot)
     }"

text \<open>The quantized values of \<open>kmeans\<close>: \<open>tf.gather(means, tf.argmax(x_means_hot, axis=-1))\<close>.\<close>

definition kmeans_x_means :: "rtensor \<Rightarrow> rtensor \<Rightarrow> rtensor option" where
  "kmeans_x_means means x_means_hot =
     do {
       idx \<leftarrow> tf_argmax x_means_hot;
       tf_gather means idx
     }"

definition kmeans :: "rtensor \<Rightarrow> rtensor \<Rightarrow> hparams \<Rightarrow> string \<Rightarrow> (rtensor \<times> real) option" where
  "kmeans x means hp name =
     do {
       x_means_hot \<leftarrow> nearest x means hp;
       x_means \<leftarrow> kmeans_x_means means x_means_hot;
       diff \<leftarrow> tsub x x_means;
       kl \<leftarrow> tf_reduce_sum_last (tf_square diff);
       m \<leftarrow> tf_reduce_mean kl;
       Some (x_means_hot, m * 10.0)
     }"

section \<open>ae\_embed\<close>

text \<open>
  The variable store maps the full name of a variable (its scope path and name) to
  its current value.  \<open>tf.get_variable\<close> raises when the stored variable does not have
  the requested shape.
\<close>

type_synonym varstore = "scope \<Rightarrow> rtensor option"

definition tf_get_variable :: "varstore \<Rightarrow> scope \<Rightarrow> string \<Rightarrow> int list \<Rightarrow> rtensor option" where
  "tf_get_variable vs sc name shp =
     (case vs (sc @ [name]) of
        None \<Rightarrow> None
      | Some t \<Rightarrow>
          if list_all (\<lambda>d. 0 \<le> d) shp \<and> shape t = map nat shp \<and> wf_tensor t then Some t
          else None)"

text \<open>\<open>ae_embed\<close> up to the embedding \<open>emb\<close>, before the final dense layer.\<close>

definition ae_embed_emb :: "varstore \<Rightarrow> rtensor \<Rightarrow> hparams \<Rightarrow> string \<Rightarrow> scope \<Rightarrow> rtensor option" where
  "ae_embed_emb vs hot hp name outer =
     do {
       means \<leftarrow> tf_get_variable vs (outer @ [name]) ''z_to_dense'' [v_size hp, hidden_size hp];
       hot_flat \<leftarrow> tf_reshape hot [- 1, v_size hp];
       emb \<leftarrow> tf_matmul hot_flat means False;
       d0 \<leftarrow> shape_at hot 0;
       d1 \<leftarrow> shape_at hot 1;
       d2 \<leftarrow> shape_at hot 2;
       tf_reshape emb [d0, d1, d2, hidden_size hp]
     }"

definition ae_embed ::
  "(scope \<Rightarrow> rtensor \<Rightarrow> int \<Rightarrow> rtensor option) \<Rightarrow> varstore \<Rightarrow> rtensor \<Rightarrow> hparams \<Rightarrow> string \<Rightarrow> scope
     \<Rightarrow> rtensor option" where
  "ae_embed tf_layers_dense vs hot hp name outer =
     do {
       emb \<leftarrow> ae_embed_emb vs hot hp name outer;
       tf_layers_dense (outer @ [name, ''unnormalize'']) emb (hidden_size hp)
     }"

text \<open>A one-hot tensor over its last dimension: every row has a single 1 among zeros.\<close>

definition is_one_hot :: "nat \<Rightarrow> real list \<Rightarrow> bool" where
  "is_one_hot v r = list_ex (\<lambda>j. r = one_hot_row v (int j)) [0..<v]"

definition one_hot_tensor :: "rtensor \<Rightarrow> bool" where
  "one_hot_tensor t =
     (shape t \<noteq> [] \<and> wf_tensor t \<and>
      list_all (is_one_hot (last (shape t)))
        (rows (last (shape t)) (prod_list (butlast (shape t))) (elems t)))"

section \<open>vae\<close>

text \<open>A shape given as a list of Python ints; a negative dimension raises.\<close>

definition to_shape :: "int list \<Rightarrow> nat list option" where
  "to_shape ds = (if list_ex (\<lambda>d. d < 0) ds then None else Some (map nat ds))"

text \<open>The noise of \<open>vae\<close>: \<open>tf.random_normal([shape[0], shape[1], 1, hparams.z_size])\<close>.\<close>

definition vae_epsilon :: "rng \<Rightarrow> rtensor \<Rightarrow> hparams \<Rightarrow> rtensor option" where
  "vae_epsilon rng x hp =
     do {
       d0 \<leftarrow> shape_at x 0;
       d1 \<leftarrow> shape_at x 1;
       shp \<leftarrow> to_shape [d0, d1, 1, z_size hp];
       Some (tf_random_normal rng shp)
     }"

text \<open>\<open>tf.layers.dense\<close> is a parameter: it takes its scope, its input and the number of units.\<close>

definition vae ::
  "(scope \<Rightarrow> rtensor \<Rightarrow> int \<Rightarrow> rtensor option) \<Rightarrow> rng \<Rightarrow> rtensor \<Rightarrow> hparams \<Rightarrow> string \<Rightarrow> scope
     \<Rightarrow> (rtensor \<times> real \<times> rtensor \<times> rtensor) option" where
  "vae tf_layers_dense rng x hp name outer =
     do {
       mu \<leftarrow> tf_layers_dense (outer @ [name, ''mu'']) x (z_size hp);
       log_sigma \<leftarrow> tf_layers_dense (outer @ [name, ''log_sigma'']) x (z_size hp);
       epsilon \<leftarrow> vae_epsilon rng x hp;
       half \<leftarrow> tbin (/) log_sigma (scalar 2);
       noise \<leftarrow> tmul (tmap exp half) epsilon;
       z \<leftarrow> tadd mu noise;
       a \<leftarrow> tadd (tmap exp log_sigma) (tf_square mu);
       a \<leftarrow> tsub a (scalar 1);
       a \<leftarrow> tsub a log_sigma;
       m \<leftarrow> tf_reduce_mean_last a;
       kl \<leftarrow> tmul (scalar 0.5) m;
       kl_mean \<leftarrow> tf_reduce_mean kl;
       Some (z, kl_mean, mu, log_sigma)
     }"

section \<open>Lengths through compression and decompression\<close>

text \<open>
  The length dimension (axis 1) of the targets, followed through
  \<open>ae_transformer_internal\<close>, \<open>compress\<close> and \<open>ae_decompress\<close>.
\<close>

text \<open>
  Modelled from the spec: \<open>common_layers.pad_to_same_length\<close> is not among the sources.
  With \<open>final_length_divisible_by = k\<close> it pads both tensors to the longer of the two
  lengths, rounded up to the next multiple of \<open>k\<close> when \<open>k > 1\<close>, so that the length
  dimension is divisible by \<open>k\<close>.
\<close>

definition pad_to_same_length :: "nat \<Rightarrow> nat \<Rightarrow> nat \<Rightarrow> nat \<times> nat" where
  "pad_to_same_length x_length y_length final_length_divisible_by =
     (let max_length = max x_length y_length;
          max_length =
            (if 1 < final_length_divisible_by then
               (max_length + final_length_divisible_by - 1) div final_length_divisible_by
                 * final_length_divisible_by
             else max_length)
      in (max_length, max_length))"

datatype conv_padding = VALID | SAME

text \<open>
  Modelled from the spec: \<open>common_layers.conv_block\<close> is not among the sources.  The
  compression step is a convolution of kernel size 2 and stride 2 along the length;
  its output length is TensorFlow's, for either padding mode.  A \<open>VALID\<close> convolution
  of an input shorter than the kernel raises.
\<close>

definition strided_conv_length :: "conv_padding \<Rightarrow> nat \<Rightarrow> nat \<Rightarrow> nat \<Rightarrow> nat option" where
  "strided_conv_length pad ksize stride len =
     (case pad of
        VALID \<Rightarrow> if len < ksize then None else Some ((len - ksize) div stride + 1)
      | SAME \<Rightarrow> Some ((len + stride - 1) div stride))"

text \<open>
  The loop of \<open>compress\<close>: \<open>attend\<close> (skipped, \<open>c\<close> is \<open>None\<close>) and \<open>residual_conv\<close> keep
  the length; the convolution with \<open>strides=k2\<close>, \<open>k2 = (2, 2)\<close> or \<open>(2, 1)\<close>, halves it.
\<close>

function compress_length_loop :: "conv_padding \<Rightarrow> int \<Rightarrow> int \<Rightarrow> nat \<Rightarrow> nat option" where
  "compress_length_loop pad i steps cur =
     (if i < steps then
        do {
          cur \<leftarrow> strided_conv_length pad 2 2 cur;
          compress_length_loop pad (i + 1) steps cur
        }
      else Some cur)"
  by pat_completeness auto
termination
  by (relation "measure (\<lambda>(pad, i, steps, cur). nat (steps - i))") auto

declare compress_length_loop.simps [simp del]

definition compress_length :: "conv_padding \<Rightarrow> hparams \<Rightarrow> nat \<Rightarrow> nat option" where
  "compress_length pad hp len = compress_length_loop pad 0 (num_compress_steps hp) len"

text \<open>
  \<open>decompress_step\<close> reshapes to \<open>[shape[0], shape[1] * 2, 1, hidden_size]\<close>, or applies
  \<open>tf.depth_to_space(thicker, 2)\<close> when \<open>is_2d\<close>: the length doubles in both cases.
\<close>

definition decompress_step_length :: "nat \<Rightarrow> nat" where
  "decompress_step_length len = len * 2"

function ae_decompress_length_loop :: "int \<Rightarrow> int \<Rightarrow> nat \<Rightarrow> nat" where
  "ae_decompress_length_loop i steps d =
     (if i < steps then ae_decompress_length_loop (i + 1) steps (decompress_step_length d)
      else d)"
  by pat_completeness auto
termination
  by (relation "measure (\<lambda>(i, steps, d). nat (steps - i))") auto

declare ae_decompress_length_loop.simps [simp del]

definition ae_decompress_length :: "hparams \<Rightarrow> nat \<Rightarrow> nat" where
  "ae_decompress_length hp len = ae_decompress_length_loop 0 (num_compress_steps hp) len"

text \<open>
  \<open>ae_transformer_internal\<close>: \<open>k = 2**hparams.num_compress_steps\<close>, the padded target
  length, the compressed length and the decompressed length.  For a negative number of
  steps \<open>k\<close> is a fraction below 1, which pads like 1.
\<close>

definition ae_transformer_internal_lengths ::
  "conv_padding \<Rightarrow> hparams \<Rightarrow> nat \<Rightarrow> (nat \<times> nat \<times> nat) option" where
  "ae_transformer_internal_lengths pad hp targets_length =
     (let k = (if 0 \<le> num_compress_steps hp then 2 ^ nat (num_compress_steps hp) else 1);
          (_, targets) = pad_to_same_length targets_length targets_length k
      in do {
           compressed \<leftarrow> compress_length pad hp targets;
           Some (targets, compressed, ae_decompress_length hp compressed)
         })"

section \<open>TransformerAE.infer\<close>

text \<open>
  The features dictionary is an association list in insertion order; assignment to a
  key is \<open>AList.update\<close>.  The dictionary is shared with the caller, so \<open>infer\<close>
  returns its final state together with the outcome, also when an exception
  propagates.
\<close>

type_synonym features = "(string \<times> rtensor) list"

datatype error = KeyError string | Raised

text \<open>
  \<open>T2TModel.model_fn\<close>, \<open>_data_parallelism\<close> and \<open>tf.concat\<close> are defined elsewhere and
  are parameters.  \<open>model_fn\<close> receives the dictionary itself, so it returns the
  dictionary as it leaves it.
\<close>

record model =
  model_fn :: "features \<Rightarrow> features \<times> (error + rtensor list)"
  data_parallelism_argmax :: "rtensor list \<Rightarrow> error + rtensor list"
  tf_concat :: "rtensor list \<Rightarrow> error + rtensor"

text \<open>\<open>tf.expand_dims(x, axis)\<close>; an axis beyond the rank raises.\<close>

definition tf_expand_dims :: "'a tensor \<Rightarrow> nat \<Rightarrow> 'a tensor option" where
  "tf_expand_dims x axis =
     (if axis \<le> length (shape x) then
        Some \<lparr>shape = take axis (shape x) @ [1] @ drop axis (shape x), elems = elems x\<rparr>
      else None)"

definition tf_zeros :: "nat list \<Rightarrow> rtensor" where
  "tf_zeros shp = \<lparr>shape = shp, elems = replicate (prod_list shp) 0\<rparr>"

text \<open>
  \<open>sharded_logits, _ = self.model_fn(features, ...)\<close>;
  \<open>sharded_samples = self._data_parallelism(tf.argmax, sharded_logits, 4)\<close>;
  \<open>samples = tf.concat(sharded_samples, 0)\<close>.
\<close>

definition sample_once :: "model \<Rightarrow> features \<Rightarrow> features \<times> (error + rtensor)" where
  "sample_once M fs =
     (case model_fn M fs of
        (fs', Inl e) \<Rightarrow> (fs', Inl e)
      | (fs', Inr sharded_logits) \<Rightarrow>
          (case data_parallelism_argmax M sharded_logits of
             Inl e \<Rightarrow> (fs', Inl e)
           | Inr sharded_samples \<Rightarrow> (fs', tf_concat M sharded_samples)))"

text \<open>The loop \<open>for _ in xrange(how_many_more_steps)\<close>.\<close>

fun more_steps :: "model \<Rightarrow> nat \<Rightarrow> features \<Rightarrow> rtensor \<Rightarrow> features \<times> (error + rtensor)" where
  "more_steps M 0 fs samples = (fs, Inr samples)"
| "more_steps M (Suc n) fs samples =
     (case sample_once M (AList.update ''targets'' samples fs) of
        (fs', Inl e) \<Rightarrow> (fs', Inl e)
      | (fs', Inr samples') \<Rightarrow> more_steps M n fs' samples')"

text \<open>The initial targets tensor.\<close>

definition initial_output :: "features \<Rightarrow> error + rtensor" where
  "initial_output fs =
     (case map_of fs ''partial_targets'' of
        Some t \<Rightarrow> Inr t
      | None \<Rightarrow>
          (case map_of fs ''inputs'' of
             None \<Rightarrow> Inl (KeyError ''inputs'')
           | Some inp \<Rightarrow>
               (case shape_at inp 0 of
                  None \<Rightarrow> Inl Raised
                | Some batch_size \<Rightarrow> Inr (tf_zeros [nat batch_size, 1, 1, 1]))))"

text \<open>The body of \<open>infer\<close> on the dictionary it works on.\<close>

definition infer_body :: "model \<Rightarrow> features \<Rightarrow> features \<times> (error + rtensor)" where
  "infer_body M fs0 =
     (case (case map_of fs0 ''inputs'' of
              None \<Rightarrow> Inr (None, fs0)
            | Some inp \<Rightarrow>
                if length (shape inp) < 4 then
                  (case tf_expand_dims inp 2 of
                     None \<Rightarrow> Inl Raised
                   | Some expanded \<Rightarrow> Inr (Some inp, AList.update ''inputs'' expanded fs0))
                else Inr (None, fs0)) of
        Inl e \<Rightarrow> (fs0, Inl e)
      | Inr (inputs_old, fs1) \<Rightarrow>
          (case initial_output fs1 of
             Inl e \<Rightarrow> (fs1, Inl e)
           | Inr initial \<Rightarrow>
               (case sample_once M (AList.update ''targets'' initial fs1) of
                  (fs2, Inl e) \<Rightarrow> (fs2, Inl e)
                | (fs2, Inr samples) \<Rightarrow>
                    (case more_steps M 2 fs2 samples of
                       (fs3, Inl e) \<Rightarrow> (fs3, Inl e)
                     | (fs3, Inr samples') \<Rightarrow>
                         (case inputs_old of
                            None \<Rightarrow> (fs3, Inr samples')
                          | Some old \<Rightarrow> (AList.update ''inputs'' old fs3, Inr samples'))))))"

text \<open>
  \<open>infer\<close>: when \<open>features\<close> is \<open>None\<close> or empty, the body works on a fresh dictionary
  and the caller's object is left as it is.
\<close>

definition infer :: "model \<Rightarrow> features option \<Rightarrow> features option \<times> (error + rtensor)" where
  "infer M features =
     (case features of
        None \<Rightarrow> (None, snd (infer_body M []))
      | Some fs \<Rightarrow>
          if fs = [] then (Some [], snd (infer_body M []))
          else (case infer_body M fs of (fs', r) \<Rightarrow> (Some fs', r)))"

section \<open>decode\<close>

text \<open>
  The position (index along axis 1) of the element at a flat index, for a tensor of
  shape \<open>[batch, length, ...]\<close>.
\<close>

definition position_of :: "nat list \<Rightarrow> nat \<Rightarrow> nat" where
  "position_of shp idx = (idx div prod_list (drop 2 shp)) mod (shp ! 1)"

text \<open>
  Modelled from the spec: \<open>common_layers.shift_right\<close> is not among the sources.  It
  shifts a tensor of shape \<open>[batch, length, width, depth]\<close> right by one position along
  the length: position 0 receives the pad value (zeros when \<open>pad_value\<close> is \<open>None\<close>, else
  \<open>pad_value\<close>, of shape \<open>[batch, 1, width, depth]\<close>), position \<open>j + 1\<close> receives what
  was at position \<open>j\<close>, and the last position is dropped.
\<close>

definition shift_right :: "rtensor \<Rightarrow> rtensor option \<Rightarrow> rtensor option" where
  "shift_right x pad_value =
     (if length (shape x) \<noteq> 4 then None
      else
        (let slab = prod_list (drop 2 (shape x));
             len = shape x ! 1;
             pad_ok = (case pad_value of
                         None \<Rightarrow> True
                       | Some p \<Rightarrow> shape p = [shape x ! 0, 1, shape x ! 2, shape x ! 3] \<and> wf_tensor p);
             pad_at = (\<lambda>idx. case pad_value of
                                None \<Rightarrow> 0
                              | Some p \<Rightarrow> elems p ! (idx div (len * slab) * slab + idx mod slab))
         in if pad_ok then
              Some \<lparr>shape = shape x,
                    elems = map (\<lambda>idx. if position_of (shape x) idx = 0 then pad_at idx
                                        else elems x ! (idx - slab))
                              [0..<length (elems x)]\<rparr>
            else None))"

text \<open>
  Modelled from the spec: \<open>common_attention.add_timing_signal_1d\<close> is not among the
  sources.  It adds to a tensor of shape \<open>[batch, length, channels]\<close> a signal that
  depends on the position and the channel only; the signal is a parameter.
\<close>

definition add_timing_signal_1d :: "(nat \<Rightarrow> nat \<Rightarrow> nat \<Rightarrow> real) \<Rightarrow> rtensor \<Rightarrow> rtensor option" where
  "add_timing_signal_1d timing x =
     (if length (shape x) = 3 then
        Some \<lparr>shape = shape x,
              elems = map (\<lambda>idx. elems x ! idx
                                    + timing (shape x ! 2) (position_of (shape x) idx)
                                        (idx mod (shape x ! 2)))
                        [0..<length (elems x)]\<rparr>
      else None)"

text \<open>
  Modelled from the spec: \<open>common_attention.attention_bias_lower_triangle\<close> is not among
  the sources.  It is the lower-triangular attention bias over the target length: of
  shape \<open>[1, 1, length, length]\<close>, zero at \<open>(i, j)\<close> for \<open>j \<le> i\<close> and \<open>-1e9\<close> for \<open>j > i\<close>.
\<close>

definition attention_bias_lower_triangle :: "nat \<Rightarrow> rtensor" where
  "attention_bias_lower_triangle len =
     \<lparr>shape = [1, 1, len, len],
      elems = map (\<lambda>idx. if idx mod len \<le> idx div len then 0 else - (10 ^ 9)) [0..<len * len]\<rparr>"

text \<open>Whether the bias lets position \<open>i\<close> attend to position \<open>j\<close>.\<close>

definition allowed :: "rtensor \<Rightarrow> nat \<Rightarrow> nat \<Rightarrow> nat \<Rightarrow> bool" where
  "allowed bias len i j = (elems bias ! (i * len + j) = 0)"

text \<open>Two outcomes agree at a position: both raise, or both return tensors of one
  shape with the same elements at that position.\<close>

definition agree_at :: "nat \<Rightarrow> rtensor \<Rightarrow> rtensor \<Rightarrow> bool" where
  "agree_at i y y' =
     (shape y = shape y' \<and> length (elems y) = length (elems y') \<and>
      list_all (\<lambda>idx. position_of (shape y) idx = i \<longrightarrow> elems y ! idx = elems y' ! idx)
        [0..<length (elems y)])"

definition same_at :: "nat \<Rightarrow> rtensor option \<Rightarrow> rtensor option \<Rightarrow> bool" where
  "same_at i r r' =
     (case (r, r') of
        (Some y, Some y') \<Rightarrow> agree_at i y y'
      | (None, None) \<Rightarrow> True
      | _ \<Rightarrow> False)"

text \<open>Two tensors of one shape agree at all positions before \<open>i\<close>.\<close>

definition agree_before :: "nat \<Rightarrow> rtensor \<Rightarrow> rtensor \<Rightarrow> bool" where
  "agree_before i x x' =
     (shape x = shape x' \<and> length (elems x) = length (elems x') \<and>
      list_all (\<lambda>idx. position_of (shape x) idx < i \<longrightarrow> elems x ! idx = elems x' ! idx)
        [0..<length (elems x)])"

type_synonym decoder =
  "rtensor \<Rightarrow> rtensor option \<Rightarrow> rtensor \<Rightarrow> rtensor option \<Rightarrow> hparams \<Rightarrow> rtensor option"

text \<open>
  Modelled from the spec: \<open>transformer.transformer_decoder\<close> is not among the sources;
  it is a parameter.  That its self-attention applies the bias means: on decoder
  inputs of shape \<open>[batch, length, depth]\<close>, the output at position \<open>i\<close> depends on the
  decoder input only at the positions \<open>j\<close> that the bias allows for \<open>i\<close>.
\<close>

definition respects_bias :: "decoder \<Rightarrow> rtensor \<Rightarrow> bool" where
  "respects_bias transformer_decoder bias =
     (\<forall>x x' c ed hp i.
        wf_tensor x \<and> wf_tensor x' \<and> shape x = shape x' \<and> length (shape x) = 3
        \<and> i < shape x ! 1
        \<and> (\<forall>idx<length (elems x).
              allowed bias (shape x ! 1) i (position_of (shape x) idx)
                \<longrightarrow> elems x ! idx = elems x' ! idx)
        \<longrightarrow> same_at i (transformer_decoder x c bias ed hp) (transformer_decoder x' c bias ed hp))"

definition decode ::
  "decoder \<Rightarrow> (nat \<Rightarrow> nat \<Rightarrow> nat \<Rightarrow> real) \<Rightarrow> rng \<Rightarrow> rtensor option \<Rightarrow> rtensor option \<Rightarrow> rtensor
     \<Rightarrow> rtensor option \<Rightarrow> rtensor option \<Rightarrow> hparams \<Rightarrow> rtensor option" where
  "decode transformer_decoder timing rng cond_vec cond_add gold c ed hp =
     do {
       drop_gold \<leftarrow> nn_dropout rng gold (1.0 - layer_prepostprocess_dropout hp);
       decoder_input \<leftarrow> shift_right drop_gold cond_vec;
       decoder_input \<leftarrow> (case cond_add of
                           None \<Rightarrow> Some decoder_input
                         | Some a \<Rightarrow> tadd decoder_input a);
       decoder_input \<leftarrow> tf_squeeze decoder_input 2;
       decoder_input \<leftarrow> add_timing_signal_1d timing decoder_input;
       len \<leftarrow> shape_at gold 1;
       let bias = attention_bias_lower_triangle (nat len);
       c \<leftarrow> (case c of
               None \<Rightarrow> Some None
             | Some ct \<Rightarrow> if 3 < length (shape ct) then map_option Some (tf_squeeze ct 2)
                          else Some (Some ct));
       transformer_decoder decoder_input c bias ed hp
     }"

section \<open>Which functions a call applies\<close>

text \<open>
  The functions of the module, and for each of them the list of module functions
  that one call applies, itself first, in the order of execution.  The lists follow
  the control flow of the source: the loops over \<open>xrange(hparams.num_compress_steps)\<close>,
  the tests \<open>c is not None\<close> and \<open>is_2d\<close>.
\<close>

datatype fn =
    Residual_conv | Attend | Interleave | Decompress_step | Gumbel_sample | Dae | Vae
  | Nearest | Kmeans | Compress | Mix | Encode | Decode | Expand_batch | Ae_compress
  | Ae_embed | Ae_decompress | Ffn | Ae_transformer_internal






definition gumbel_sample_calls :: "fn list" where
  "gumbel_sample_calls = [Gumbel_sample]"

definition dae_calls :: "fn list" where
  "dae_calls = Dae # gumbel_sample_calls"

definition vae_calls :: "fn list" where
  "vae_calls = [Vae]"












section \<open>Example inputs\<close>

text \<open>Small concrete inputs at which the theorems below are instantiated.\<close>

definition example_hparams :: hparams where
  "example_hparams =
     \<lparr>hidden_size = 2, dropout = 0, layer_prepostprocess_dropout = 0, z_size = 2, v_size = 2,
      num_compress_steps = 2, kl_warmup_steps = 10, startup_steps = 10, kmeans_lr_factor = 1 / 2,
      z_dropout = 0, is_2d = False, mode = TRAIN\<rparr>"

definition example_means :: rtensor where
  "example_means = \<lparr>shape = [2, 2], elems = [1, 0, 0, 2]\<rparr>"

definition example_store :: varstore where
  "example_store p = (if p = [''ae'', ''z_to_dense''] then Some example_means else None)"

definition example_hot :: rtensor where
  "example_hot = \<lparr>shape = [1, 2, 1, 2], elems = [0, 1, 1, 0]\<rparr>"

definition example_x :: rtensor where
  "example_x = \<lparr>shape = [1, 2, 1, 2], elems = [1, 0, 0, 3]\<rparr>"

definition example_dense :: "rtensor \<Rightarrow> scope \<Rightarrow> rtensor \<Rightarrow> int \<Rightarrow> rtensor option" where
  "example_dense out sc t units = Some out"

definition example_rng :: rng where
  "example_rng i = real i + 1"

definition example_model :: model where
  "example_model =
     \<lparr>model_fn = (\<lambda>fs. (fs, case map_of fs ''inputs'' of
                                  None \<Rightarrow> Inl Raised
                                | Some t \<Rightarrow> Inr [t])),
      data_parallelism_argmax = Inr,
      tf_concat = (\<lambda>ts. case ts of [t] \<Rightarrow> Inr t | _ \<Rightarrow> Inl Raised)\<rparr>"

definition example_features :: features where
  "example_features = [(''inputs'', \<lparr>shape = [1, 2, 1], elems = [3, 4]\<rparr>)]"

text \<open>
  A decoder whose output at position \<open>i\<close> is the sum of its inputs at the positions
  the bias allows for \<open>i\<close>, and two gold tensors that differ at position 1 only.
\<close>

definition example_decoder :: decoder where
  "example_decoder x c bias ed hp =
     Some \<lparr>shape = shape x,
           elems = map (\<lambda>idx. sum_list (map (\<lambda>j.
                          if allowed bias (shape x ! 1) (position_of (shape x) idx) j
                          then elems x ! ((idx div (shape x ! 1 * shape x ! 2) * (shape x ! 1) + j)
                                            * (shape x ! 2) + idx mod (shape x ! 2))
                          else 0) [0..<shape x ! 1]))
                     [0..<length (elems x)]\<rparr>"

definition example_gold :: rtensor where
  "example_gold = \<lparr>shape = [1, 3, 1, 1], elems = [5, 7, 1]\<rparr>"

definition example_gold' :: rtensor where
  "example_gold' = \<lparr>shape = [1, 3, 1, 1], elems = [5, 9, 1]\<rparr>"

section \<open>Properties\<close>

subsection \<open>The convolutional residual block\<close>

lemma residual_conv_loop_unfold:
  "i < repeat \<Longrightarrow> 0 \<le> i \<Longrightarrow>
   residual_conv_loop L hp sc k i repeat x =
     Option.bind (residual_step L hp sc k (nat i) x) (\<lambda>x'. residual_conv_loop L hp sc k (i + 1) repeat x')"
  by (subst residual_conv_loop.simps)
     (simp add: residual_step_def Let_def numeral_3_eq_3 del: residual_conv_loop.simps)

lemma residual_conv_loop_done:
  "\<not> i < repeat \<Longrightarrow> residual_conv_loop L hp sc k i repeat x = Some x"
  by simp

lemma residual_loop_steps:
  "Option.bind (residual_steps L hp sc k n x0)
      (\<lambda>x. residual_conv_loop L hp sc k (int n) (int (n + m)) x)
   = residual_steps L hp sc k (n + m) x0"
proof (induction m arbitrary: n)
  case 0
  show ?case by (simp del: residual_conv_loop.simps add: residual_conv_loop_done)
next
  case (Suc m)
  have "Option.bind (residual_steps L hp sc k n x0)
      (\<lambda>x. residual_conv_loop L hp sc k (int n) (int (n + Suc m)) x)
      = Option.bind (residual_steps L hp sc k n x0)
      (\<lambda>x. Option.bind (residual_step L hp sc k n x)
         (\<lambda>x'. residual_conv_loop L hp sc k (int n + 1) (int (n + Suc m)) x'))"
    by (subst residual_conv_loop_unfold) simp_all
  also have "\<dots> = Option.bind (residual_steps L hp sc k (Suc n) x0)
         (\<lambda>x'. residual_conv_loop L hp sc k (int (Suc n)) (int (Suc n + m)) x')"
    by (simp del: residual_conv_loop.simps add: add.commute)
  also have "\<dots> = residual_steps L hp sc k (Suc n + m) x0"
    by (rule Suc.IH)
  finally show ?case by simp
qed

text \<open>
  C7.  \<open>residual_conv\<close> performs exactly \<open>repeat\<close> steps of
  \<open>x <- x + dropout(conv_block(layer_norm(x)))\<close>, step \<open>i\<close> in the scope \<open>repeat_i\<close>, and
  returns the result (a step that raises makes the whole call raise); for
  \<open>repeat = 0\<close> it returns \<open>x\<close> unchanged.
\<close>

theorem residual_conv_iterated:
  "residual_conv L x repeat k hp name outer
     = residual_steps L hp (outer @ [name]) k (nat repeat) x
   \<and> residual_conv L x 0 k hp name outer = Some x"
proof -
  have "residual_conv_loop L hp sc k 0 repeat x = residual_steps L hp sc k (nat repeat) x" for sc
  proof (cases "0 \<le> repeat")
    case True
    then show ?thesis using residual_loop_steps [of L hp sc k 0 x "nat repeat"]
      by (simp del: residual_conv_loop.simps)
  next
    case False
    then show ?thesis by simp
  qed
  then show ?thesis
    by (simp add: residual_conv_def residual_conv_loop_done del: residual_conv_loop.simps)
qed

subsection \<open>Rows and broadcasting\<close>

lemma length_rows [simp]: "length (rows n k d) = k"
  by (simp add: rows_def)

lemma nth_rows: "i < k \<Longrightarrow> rows n k d ! i = take n (drop (i * n) d)"
  by (simp add: rows_def)

lemma rows_Suc: "rows n (Suc k) d = take n d # rows n k (drop n d)"
proof -
  have "[0..<Suc k] = 0 # map Suc [0..<k]"
    by (simp add: upt_conv_Cons map_Suc_upt del: upt_Suc)
  then have "rows n (Suc k) d = map (\<lambda>i. take n (drop (i * n) d)) (0 # map Suc [0..<k])"
    unfolding rows_def by simp
  then show ?thesis by (simp add: rows_def comp_def add.commute)
qed

lemma rows_0 [simp]: "rows n 0 d = []"
  by (simp add: rows_def)

lemma concat_rows: "length d = k * n \<Longrightarrow> concat (rows n k d) = d"
proof (induction k arbitrary: d)
  case 0
  then show ?case by simp
next
  case (Suc k)
  then have "length (drop n d) = k * n" by simp
  then have "concat (rows n k (drop n d)) = drop n d" by (rule Suc.IH)
  then show ?case by (simp add: rows_Suc)
qed

lemma length_row: "length d = k * n \<Longrightarrow> r \<in> set (rows n k d) \<Longrightarrow> length r = n"
proof -
  assume len: "length d = k * n" and "r \<in> set (rows n k d)"
  then obtain i where i: "i < k" and r: "r = take n (drop (i * n) d)"
    by (auto simp: rows_def)
  have "Suc i * n \<le> k * n" using i by (intro mult_le_mono1) simp
  then show ?thesis using len r by simp
qed

lemma expand_same: "length d = prod_list s \<Longrightarrow> expand s s d = d"
proof (induction s arbitrary: d)
  case Nil
  then show ?case by simp
next
  case (Cons a s)
  have len: "length d = a * prod_list s" using Cons.prems by simp
  have "map (expand s s) (rows (prod_list s) a d) = rows (prod_list s) a d"
    by (rule map_idI) (use Cons.IH length_row [OF len] in auto)
  then show ?case by (simp add: concat_rows [OF len])
qed

lemma prod_list_replicate_one [simp]: "prod_list (replicate n (Suc 0)) = Suc 0"
  by (induction n) auto

lemma concat_replicate_replicate: "concat (replicate b (replicate n v)) = replicate (b * n) v"
  by (induction b) (auto simp: replicate_add)

lemma expand_scalar: "expand (replicate (length s) (Suc 0)) s [v] = replicate (prod_list s) v"
proof (induction s)
  case Nil
  then show ?case by simp
next
  case (Cons b s)
  have r: "rows (Suc 0) (Suc 0) [v] = [[v]]" by (simp add: rows_def)
  show ?case using Cons.IH
    by (auto simp: r concat_replicate_replicate Let_def)
qed

lemma bshape_rev_same: "bshape_rev s s = Some s"
  by (induction s) auto

lemma bshape_rev_Nil2: "bshape_rev s [] = Some s"
  by (cases s) auto

lemma broadcast_shape_same [simp]: "broadcast_shape s s = Some s"
  by (simp add: broadcast_shape_def bshape_rev_same)

lemma broadcast_shape_scalar [simp]:
  "broadcast_shape [] s = Some s" "broadcast_shape s [] = Some s"
  by (simp_all add: broadcast_shape_def bshape_rev_Nil2)

lemma broadcast_to_same: "wf_tensor t \<Longrightarrow> broadcast_to (shape t) t = elems t"
  by (simp add: broadcast_to_def wf_tensor_def expand_same)

lemma broadcast_to_scalar: "broadcast_to s (scalar v) = replicate (prod_list s) v"
  by (simp add: broadcast_to_def scalar_def expand_scalar)

lemma tbin_same:
  "wf_tensor x \<Longrightarrow> wf_tensor y \<Longrightarrow> shape x = shape y \<Longrightarrow>
   tbin f x y = Some \<lparr>shape = shape x, elems = map2 f (elems x) (elems y)\<rparr>"
  using broadcast_to_same [of x] broadcast_to_same [of y] by (simp add: tbin_def)

lemma map2_replicate_left:
  "length ys = n \<Longrightarrow> map2 f (replicate n v) ys = map (f v) ys"
  by (induction ys arbitrary: n) auto

lemma map2_replicate_right:
  "length xs = n \<Longrightarrow> map2 f xs (replicate n v) = map (\<lambda>x. f x v) xs"
  by (induction xs arbitrary: n) auto

lemma tbin_scalar_left:
  "wf_tensor y \<Longrightarrow> tbin f (scalar v) y = Some \<lparr>shape = shape y, elems = map (f v) (elems y)\<rparr>"
proof -
  assume wf: "wf_tensor y"
  have "map2 f (broadcast_to (shape y) (scalar v)) (broadcast_to (shape y) y) = map (f v) (elems y)"
    using wf by (simp add: broadcast_to_same broadcast_to_scalar map2_replicate_left wf_tensor_def)
  moreover have "shape (scalar v) = []" by (simp add: scalar_def)
  ultimately show ?thesis by (simp add: tbin_def)
qed

lemma tbin_scalar_right:
  "wf_tensor x \<Longrightarrow> tbin f x (scalar v) = Some \<lparr>shape = shape x, elems = map (\<lambda>a. f a v) (elems x)\<rparr>"
proof -
  assume wf: "wf_tensor x"
  have "map2 f (broadcast_to (shape x) x) (broadcast_to (shape x) (scalar v)) = map (\<lambda>a. f a v) (elems x)"
    using wf by (simp add: broadcast_to_same broadcast_to_scalar map2_replicate_right wf_tensor_def)
  moreover have "shape (scalar v) = []" by (simp add: scalar_def)
  ultimately show ?thesis by (simp add: tbin_def)
qed

subsection \<open>Gumbel samples\<close>

lemma ln_lower: "0 < (x::real) \<Longrightarrow> 1 - 1 / x \<le> ln x"
proof -
  assume x: "0 < x"
  then have "ln (1 / x) \<le> 1 / x - 1" by (intro ln_le_minus_one) simp
  then show ?thesis using x by (simp add: ln_div)
qed

lemma gumbel_bounds:
  assumes "0.00001 \<le> (u::real)" and "u \<le> 0.99998"
  shows "0 < u" and "0.00002 \<le> - ln u" and "- ln u \<le> 99999"
    and "\<bar>- ln (- ln u)\<bar> \<le> 100000"
proof -
  show u: "0 < u" using assms by simp
  have "ln u \<le> u - 1" using u by (rule ln_le_minus_one)
  then show lo: "0.00002 \<le> - ln u" using assms by simp
  have "1 / u \<le> 1 / 0.00001" using assms by (intro divide_left_mono) simp_all
  then have "1 - 1 / u \<ge> 1 - 100000" by simp
  then show hi: "- ln u \<le> 99999" using ln_lower [OF u] by simp
  let ?v = "- ln u"
  have v: "0 < ?v" using lo by simp
  have "ln ?v \<le> ?v - 1" using v by (rule ln_le_minus_one)
  then have a: "ln ?v \<le> 99998" using hi by simp
  have "1 / ?v \<le> 1 / 0.00002" using lo by (intro divide_left_mono) simp_all
  then have "1 - 1 / ?v \<ge> 1 - 50000" by simp
  then have b: "- 49999 \<le> ln ?v" using ln_lower [OF v] by simp
  show "\<bar>- ln ?v\<bar> \<le> 100000" using a b by simp
qed

lemma uniform_range:
  assumes "0 \<le> (r::real)" and "r < 1"
  shows "0.00001 \<le> 0.00001 + r * (0.99998 - 0.00001)"
    and "0.00001 + r * (0.99998 - 0.00001) \<le> 0.99998"
  using assms by simp_all

text \<open>
  C8.  With raw uniform draws in \<open>[0, 1)\<close>, every uniform sample of \<open>gumbel_sample\<close> lies
  in \<open>[0.00001, 0.99998]\<close>, and every element of the result is the finite real number
  \<open>- ln (- ln u)\<close>, of absolute value at most \<open>100000\<close>: neither logarithm is taken of
  zero or of a negative number.
\<close>

theorem gumbel_sample_finite:
  assumes "\<forall>i. 0 \<le> rng i \<and> rng i < 1" and "i < prod_list shp"
  shows "shape (gumbel_sample rng shp) = shp
    \<and> length (elems (gumbel_sample rng shp)) = prod_list shp
    \<and> (\<exists>u. elems (tf_random_uniform rng shp 0.00001 0.99998) ! i = u
          \<and> 0.00001 \<le> u \<and> u \<le> 0.99998
          \<and> elems (gumbel_sample rng shp) ! i = Fin (- ln (- ln u))
          \<and> \<bar>- ln (- ln u)\<bar> \<le> 100000)"
proof -
  let ?u = "0.00001 + rng i * (0.99998 - 0.00001)"
  have r: "0 \<le> rng i" "rng i < 1" using assms(1) by simp_all
  note ur = uniform_range [OF r]
  note gb = gumbel_bounds [OF ur]
  have u: "elems (tf_random_uniform rng shp 0.00001 0.99998) ! i = ?u"
    using assms(2) by (simp add: tf_random_uniform_def)
  have "tf_log (Fin ?u) = Fin (ln ?u)" using gb(1) by simp
  moreover have "tf_log (Fin (- ln ?u)) = Fin (ln (- ln ?u))" using gb(2) by simp
  ultimately have g: "elems (gumbel_sample rng shp) ! i = Fin (- ln (- ln ?u))"
    using assms(2) by (simp add: gumbel_sample_def tmap_def tf_random_uniform_def)
  have "shape (gumbel_sample rng shp) = shp"
    by (simp add: gumbel_sample_def tmap_def tf_random_uniform_def)
  moreover have "length (elems (gumbel_sample rng shp)) = prod_list shp"
    by (simp add: gumbel_sample_def tmap_def tf_random_uniform_def)
  ultimately show ?thesis using u g ur gb(4) by simp
qed

theorem gumbel_sample_finite_witness:
  "(\<forall>i::nat. (0::real) \<le> 1 / 2 \<and> (1::real) / 2 < 1) \<and> (0::nat) < prod_list [2]
   \<and> shape (gumbel_sample (\<lambda>i. 1 / 2) [2]) = [2]
   \<and> length (elems (gumbel_sample (\<lambda>i. 1 / 2) [2])) = 2
   \<and> (\<exists>u. elems (tf_random_uniform (\<lambda>i. 1 / 2) [2] 0.00001 0.99998) ! 0 = u
          \<and> 0.00001 \<le> u \<and> u \<le> 0.99998
          \<and> elems (gumbel_sample (\<lambda>i. 1 / 2) [2]) ! 0 = Fin (- ln (- ln u))
          \<and> \<bar>- ln (- ln u)\<bar> \<le> 100000)"
  using gumbel_sample_finite [of "\<lambda>i. 1 / 2" 0 "[2]"] by simp

subsection \<open>The annealed blending schedule\<close>

lemma wf_tensor_mk [simp]: "wf_tensor \<lparr>shape = s, elems = d\<rparr> = (length d = prod_list s)"
  by (simp add: wf_tensor_def)

lemma mix_simple:
  assumes "wf_tensor x1" "wf_tensor x2" "shape x1 = shape x2"
    and "alpha_p = (if mode_str = ''lin'' then common_layers_inverse_lin_decay D steps
                    else common_layers_inverse_exp_decay D steps) * (max_prob - min_prob) + min_prob"
  shows "mix D rng x1 x2 steps min_prob max_prob mode_str True =
    Some \<lparr>shape = shape x1,
          elems = map2 (\<lambda>a b. alpha_p * a + (1 - alpha_p) * b) (elems x1) (elems x2)\<rparr>"
proof -
  have len: "length (elems x1) = length (elems x2)"
    using assms by (simp add: wf_tensor_def)
  show ?thesis
    using assms len
    by (simp add: mix_def Let_def tmul_def tadd_def tbin_scalar_left tbin_same
          wf_tensor_def zip_map_map split_def)
qed

lemma mix_random:
  assumes "wf_tensor x1" "wf_tensor x2" "shape x1 = shape x2"
    and "alpha_p = (if mode_str = ''lin'' then common_layers_inverse_lin_decay D steps
                    else common_layers_inverse_exp_decay D steps) * (max_prob - min_prob) + min_prob"
  shows "mix D rng x1 x2 steps min_prob max_prob mode_str False =
    Some \<lparr>shape = shape x1,
          elems = map (\<lambda>i. if rng i < alpha_p then elems x1 ! i else elems x2 ! i)
                    [0..<length (elems x1)]\<rparr>"
proof -
  let ?n = "prod_list (shape x1)"
  have len: "length (elems x1) = ?n" "length (elems x2) = ?n"
    using assms by (simp_all add: wf_tensor_def)
  define alpha where "alpha = tf_random_uniform rng (shape x1) 0 1"
  have alpha: "alpha = \<lparr>shape = shape x1, elems = map rng [0..<?n]\<rparr>"
    by (simp add: alpha_def tf_random_uniform_def)
  define fl where "fl = map (\<lambda>i. if rng i < alpha_p then 1 else (0::real)) [0..<?n]"
  have less: "tf_less alpha (scalar alpha_p)
      = Some \<lparr>shape = shape x1, elems = map (\<lambda>i. rng i < alpha_p) [0..<?n]\<rparr>"
    by (simp add: tf_less_def tbin_scalar_right alpha comp_def)
  have tofl: "tf_to_float \<lparr>shape = shape x1, elems = map (\<lambda>i. rng i < alpha_p) [0..<?n]\<rparr>
      = \<lparr>shape = shape x1, elems = fl\<rparr>"
    by (simp add: tf_to_float_def tmap_def fl_def comp_def)
  have lfl: "length fl = ?n" by (simp add: fl_def)
  have a: "tmul \<lparr>shape = shape x1, elems = fl\<rparr> x1
      = Some \<lparr>shape = shape x1, elems = map2 (*) fl (elems x1)\<rparr>"
    using assms(1) lfl by (simp add: tmul_def tbin_same)
  have c: "tsub (scalar 1) \<lparr>shape = shape x1, elems = fl\<rparr>
      = Some \<lparr>shape = shape x1, elems = map (\<lambda>a. 1 - a) fl\<rparr>"
    using lfl by (simp add: tsub_def tbin_scalar_left)
  have b: "tmul \<lparr>shape = shape x1, elems = map (\<lambda>a. 1 - a) fl\<rparr> x2
      = Some \<lparr>shape = shape x1, elems = map2 (*) (map (\<lambda>a. 1 - a) fl) (elems x2)\<rparr>"
    using assms(2,3) lfl by (simp add: tmul_def tbin_same)
  have s: "tadd \<lparr>shape = shape x1, elems = map2 (*) fl (elems x1)\<rparr>
        \<lparr>shape = shape x1, elems = map2 (*) (map (\<lambda>a. 1 - a) fl) (elems x2)\<rparr>
      = Some \<lparr>shape = shape x1,
          elems = map2 (+) (map2 (*) fl (elems x1)) (map2 (*) (map (\<lambda>a. 1 - a) fl) (elems x2))\<rparr>"
    using lfl len by (simp add: tadd_def tbin_same)
  have e: "map2 (+) (map2 (*) fl (elems x1)) (map2 (*) (map (\<lambda>a. 1 - a) fl) (elems x2))
      = map (\<lambda>i. if rng i < alpha_p then elems x1 ! i else elems x2 ! i) [0..<length (elems x1)]"
    using lfl len by (auto simp: list_eq_iff_nth_eq fl_def)
  have "mix D rng x1 x2 steps min_prob max_prob mode_str False
      = Option.bind (tf_less alpha (scalar alpha_p)) (\<lambda>less.
          Option.bind (tmul (tf_to_float less) x1) (\<lambda>a.
            Option.bind (tsub (scalar 1) (tf_to_float less)) (\<lambda>c.
              Option.bind (tmul c x2) (\<lambda>b. tadd a b))))"
    using assms(4) by (simp add: mix_def Let_def alpha_def)
  also have "\<dots> = Some \<lparr>shape = shape x1,
          elems = map2 (+) (map2 (*) fl (elems x1)) (map2 (*) (map (\<lambda>a. 1 - a) fl) (elems x2))\<rparr>"
    by (simp only: less tofl a c b s Option.bind.simps)
  finally show ?thesis by (simp only: e)
qed

lemma map2_snd: "length xs = length ys \<Longrightarrow> map2 (\<lambda>a b. b) xs ys = ys"
  by (induction xs ys rule: list_induct2) auto

lemma map2_fst: "length xs = length ys \<Longrightarrow> map2 (\<lambda>a b. a) xs ys = xs"
  by (induction xs ys rule: list_induct2) auto

text \<open>
  C3.  For equal-shape tensors, \<open>mix\<close> computes \<open>alpha_p\<close>, the chosen decay (linear for
  mode "lin", exponential otherwise) rescaled to \<open>[min_prob, max_prob]\<close>.  With
  \<open>simple\<close> it returns \<open>alpha_p * x1 + (1 - alpha_p) * x2\<close>; otherwise element \<open>i\<close> of the
  result is that of \<open>x1\<close> when the uniform draw for \<open>i\<close> is below \<open>alpha_p\<close> and that of
  \<open>x2\<close> otherwise.  At \<open>alpha_p = 0\<close> the simple result is \<open>x2\<close>, at \<open>alpha_p = 1\<close> it
  is \<open>x1\<close>.
\<close>

theorem mix_blend:
  assumes "wf_tensor x1" "wf_tensor x2" "shape x1 = shape x2"
    and "decay = (if mode_str = ''lin'' then common_layers_inverse_lin_decay D steps
                  else common_layers_inverse_exp_decay D steps)"
    and "alpha_p = decay * (max_prob - min_prob) + min_prob"
  shows "mix D rng x1 x2 steps min_prob max_prob mode_str True =
      Some \<lparr>shape = shape x1,
            elems = map2 (\<lambda>a b. alpha_p * a + (1 - alpha_p) * b) (elems x1) (elems x2)\<rparr>
    \<and> mix D rng x1 x2 steps min_prob max_prob mode_str False =
      Some \<lparr>shape = shape x1,
            elems = map (\<lambda>i. if rng i < alpha_p then elems x1 ! i else elems x2 ! i)
                      [0..<length (elems x1)]\<rparr>
    \<and> (alpha_p = 0 \<longrightarrow> mix D rng x1 x2 steps min_prob max_prob mode_str True = Some x2)
    \<and> (alpha_p = 1 \<longrightarrow> mix D rng x1 x2 steps min_prob max_prob mode_str True = Some x1)
    \<and> (0 \<le> decay \<and> decay \<le> 1 \<and> min_prob \<le> max_prob
         \<longrightarrow> min_prob \<le> alpha_p \<and> alpha_p \<le> max_prob)"
proof -
  have ap: "alpha_p = (if mode_str = ''lin'' then common_layers_inverse_lin_decay D steps
                    else common_layers_inverse_exp_decay D steps) * (max_prob - min_prob) + min_prob"
    using assms(4,5) by simp
  note simple = mix_simple [OF assms(1-3) ap]
  note random = mix_random [OF assms(1-3) ap]
  have len: "length (elems x1) = length (elems x2)"
    using assms(1-3) by (simp add: wf_tensor_def)
  have zero: "mix D rng x1 x2 steps min_prob max_prob mode_str True = Some x2" if "alpha_p = 0"
    using that len assms(3) by (simp add: simple map2_snd)
  have one: "mix D rng x1 x2 steps min_prob max_prob mode_str True = Some x1" if "alpha_p = 1"
    using that len by (simp add: simple map2_fst)
  have range: "min_prob \<le> alpha_p \<and> alpha_p \<le> max_prob"
    if "0 \<le> decay \<and> decay \<le> 1 \<and> min_prob \<le> max_prob"
  proof -
    have "0 \<le> decay * (max_prob - min_prob)" using that by simp
    moreover have "decay * (max_prob - min_prob) \<le> 1 * (max_prob - min_prob)"
      using that by (intro mult_right_mono) simp_all
    ultimately show ?thesis using assms(5) by simp
  qed
  show ?thesis using simple random zero one range by blast
qed

theorem mix_blend_witness:
  "wf_tensor \<lparr>shape = [2], elems = [1, 2 :: real]\<rparr>
   \<and> wf_tensor \<lparr>shape = [2], elems = [3, 4 :: real]\<rparr>
   \<and> (0::real) \<le> 1
   \<and> mix \<lparr>common_layers_inverse_lin_decay = \<lambda>s. 0, common_layers_inverse_exp_decay = \<lambda>s. 1\<rparr>
        (\<lambda>i. 1 / 2) \<lparr>shape = [2], elems = [1, 2]\<rparr> \<lparr>shape = [2], elems = [3, 4]\<rparr> 10 0 1 ''lin'' True
       = Some \<lparr>shape = [2], elems = [3, 4]\<rparr>
   \<and> mix \<lparr>common_layers_inverse_lin_decay = \<lambda>s. 0, common_layers_inverse_exp_decay = \<lambda>s. 1\<rparr>
        (\<lambda>i. 1 / 2) \<lparr>shape = [2], elems = [1, 2]\<rparr> \<lparr>shape = [2], elems = [3, 4]\<rparr> 10 0 1 ''lin'' False
       = Some \<lparr>shape = [2], elems = [3, 4]\<rparr>
   \<and> mix \<lparr>common_layers_inverse_lin_decay = \<lambda>s. 0, common_layers_inverse_exp_decay = \<lambda>s. 1\<rparr>
        (\<lambda>i. 1 / 2) \<lparr>shape = [2], elems = [1, 2]\<rparr> \<lparr>shape = [2], elems = [3, 4]\<rparr> 10 0 1 ''exp'' True
       = Some \<lparr>shape = [2], elems = [1, 2]\<rparr>
   \<and> mix \<lparr>common_layers_inverse_lin_decay = \<lambda>s. 0, common_layers_inverse_exp_decay = \<lambda>s. 1\<rparr>
        (\<lambda>i. 1 / 2) \<lparr>shape = [2], elems = [1, 2]\<rparr> \<lparr>shape = [2], elems = [3, 4]\<rparr> 10 0 1 ''exp'' False
       = Some \<lparr>shape = [2], elems = [1, 2]\<rparr>"
  using
    mix_blend [where ?x1.0 = "\<lparr>shape = [2], elems = [1, 2]\<rparr>" and ?x2.0 = "\<lparr>shape = [2], elems = [3, 4]\<rparr>"
      and D = "\<lparr>common_layers_inverse_lin_decay = \<lambda>s. 0, common_layers_inverse_exp_decay = \<lambda>s. 1\<rparr>"
      and mode_str = "''lin''" and steps = 10 and min_prob = 0 and max_prob = 1
      and decay = 0 and alpha_p = 0 and rng = "\<lambda>i. 1 / 2"]
    mix_blend [where ?x1.0 = "\<lparr>shape = [2], elems = [1, 2]\<rparr>" and ?x2.0 = "\<lparr>shape = [2], elems = [3, 4]\<rparr>"
      and D = "\<lparr>common_layers_inverse_lin_decay = \<lambda>s. 0, common_layers_inverse_exp_decay = \<lambda>s. 1\<rparr>"
      and mode_str = "''exp''" and steps = 10 and min_prob = 0 and max_prob = 1
      and decay = 1 and alpha_p = 1 and rng = "\<lambda>i. 1 / 2"]
  by (simp add: upt_rec [of 0] upt_rec [of 1])

subsection \<open>Arg-max and one-hot rows\<close>

lemma argmax_from_spec:
  "bi < n \<Longrightarrow>
   (argmax_from bi bv n xs = bi \<and> (\<forall>x\<in>set xs. x \<le> bv)) \<or>
   (n \<le> argmax_from bi bv n xs \<and> argmax_from bi bv n xs - n < length xs
     \<and> bv < xs ! (argmax_from bi bv n xs - n)
     \<and> (\<forall>k<length xs. xs ! k \<le> xs ! (argmax_from bi bv n xs - n))
     \<and> (\<forall>k<argmax_from bi bv n xs - n. xs ! k < xs ! (argmax_from bi bv n xs - n)))"
proof (induction xs arbitrary: bi bv n)
  case Nil
  then show ?case by simp
next
  case (Cons x xs)
  show ?case
  proof (cases "bv < x")
    case True
    let ?r = "argmax_from n x (Suc n) xs"
    have r: "argmax_from bi bv n (x # xs) = ?r" using True by simp
    from Cons.IH [of n "Suc n" x]
    consider (a) "?r = n" "\<forall>y\<in>set xs. y \<le> x"
      | (b) "Suc n \<le> ?r" "?r - Suc n < length xs" "x < xs ! (?r - Suc n)"
            "\<forall>k<length xs. xs ! k \<le> xs ! (?r - Suc n)"
            "\<forall>k<?r - Suc n. xs ! k < xs ! (?r - Suc n)"
      by auto
    then show ?thesis
    proof cases
      case a
      then show ?thesis using True unfolding r by (auto simp: nth_Cons')
    next
      case b
      then have e: "?r - n = Suc (?r - Suc n)" by simp
      show ?thesis using b True unfolding r e
        by (auto simp: nth_Cons' less_Suc_eq_0_disj)
    qed
  next
    case False
    let ?r = "argmax_from bi bv (Suc n) xs"
    have r: "argmax_from bi bv n (x # xs) = ?r" using False by simp
    from Cons.IH [of bi "Suc n" bv] Cons.prems
    consider (a) "?r = bi" "\<forall>y\<in>set xs. y \<le> bv"
      | (b) "Suc n \<le> ?r" "?r - Suc n < length xs" "bv < xs ! (?r - Suc n)"
            "\<forall>k<length xs. xs ! k \<le> xs ! (?r - Suc n)"
            "\<forall>k<?r - Suc n. xs ! k < xs ! (?r - Suc n)"
      by auto
    then show ?thesis
    proof cases
      case a
      then show ?thesis using False unfolding r by auto
    next
      case b
      then have e: "?r - n = Suc (?r - Suc n)" by simp
      show ?thesis using b False unfolding r e
        by (auto simp: nth_Cons' less_Suc_eq_0_disj)
    qed
  qed
qed

lemma argmax_list_spec:
  assumes "xs \<noteq> []"
  shows "argmax_list xs < length xs"
    and "\<forall>k<length xs. xs ! k \<le> xs ! argmax_list xs"
    and "\<forall>k<argmax_list xs. xs ! k < xs ! argmax_list xs"
proof -
  obtain x r where xs: "xs = x # r" using assms by (cases xs) auto
  let ?a = "argmax_from 0 x 1 r"
  have a: "argmax_list xs = ?a" by (simp add: xs argmax_list_def)
  from argmax_from_spec [of 0 1 x r]
  consider (first) "?a = 0" "\<forall>y\<in>set r. y \<le> x"
    | (later) "1 \<le> ?a" "?a - 1 < length r" "x < r ! (?a - 1)"
        "\<forall>k<length r. r ! k \<le> r ! (?a - 1)" "\<forall>k<?a - 1. r ! k < r ! (?a - 1)"
    by auto
  then have "?a < length xs \<and> (\<forall>k<length xs. xs ! k \<le> xs ! ?a) \<and> (\<forall>k<?a. xs ! k < xs ! ?a)"
  proof cases
    case first
    then show ?thesis by (auto simp: xs nth_Cons')
  next
    case later
    then obtain m where m: "?a = Suc m" by (cases ?a) auto
    show ?thesis using later unfolding m xs
      by (auto simp: nth_Cons' less_Suc_eq_0_disj)
  qed
  then show "argmax_list xs < length xs"
    and "\<forall>k<length xs. xs ! k \<le> xs ! argmax_list xs"
    and "\<forall>k<argmax_list xs. xs ! k < xs ! argmax_list xs"
    unfolding a by blast+
qed

lemma argmax_list_unique:
  assumes "i < length xs" "\<forall>k<length xs. xs ! k \<le> xs ! i" "\<forall>k<i. xs ! k < xs ! i"
  shows "argmax_list xs = i"
proof -
  have ne: "xs \<noteq> []" using assms(1) by auto
  note s = argmax_list_spec [OF ne]
  show ?thesis
  proof (rule ccontr)
    assume "argmax_list xs \<noteq> i"
    then consider "argmax_list xs < i" | "i < argmax_list xs" by linarith
    then show False
    proof cases
      case 1
      then have "xs ! argmax_list xs < xs ! i" using assms(3) by blast
      moreover have "xs ! i \<le> xs ! argmax_list xs" using s(2) assms(1) by blast
      ultimately show False by simp
    next
      case 2
      then have "xs ! i < xs ! argmax_list xs" using s(3) by blast
      moreover have "xs ! argmax_list xs \<le> xs ! i" using assms(2) s(1) by blast
      ultimately show False by simp
    qed
  qed
qed

lemma length_one_hot_row [simp]: "length (one_hot_row v i) = v"
  by (simp add: one_hot_row_def)

lemma argmax_one_hot_row: "j < v \<Longrightarrow> argmax_list (one_hot_row v (int j)) = j"
  by (rule argmax_list_unique) (auto simp: one_hot_row_def)

lemma dot_one_hot_row:
  assumes "j < v" "length c = v"
  shows "dot (one_hot_row v (int j)) c = c ! j"
proof -
  have "dot (one_hot_row v (int j)) c = (\<Sum>i<v. (if i = j then 1 else 0) * c ! i)"
    using assms by (simp add: dot_def one_hot_row_def sum_list_sum_nth atLeast0LessThan)
  also have "\<dots> = (\<Sum>i<v. if i = j then c ! i else 0)"
    by (intro sum.cong) auto
  also have "\<dots> = c ! j" using assms by simp
  finally show ?thesis .
qed

subsection \<open>The embedding of a discrete code\<close>

lemma tf_get_variable_Some:
  "tf_get_variable vs sc name shp = Some t \<Longrightarrow> shape t = map nat shp \<and> wf_tensor t"
  by (auto simp: tf_get_variable_def split: option.splits if_splits)

lemma tf_reshape_flat:
  assumes "length (elems t) = n * v" "0 < v"
  shows "tf_reshape t [- 1, int v] = Some \<lparr>shape = [n, v], elems = elems t\<rparr>"
proof -
  have "int (n * v) div int v = int n" using assms(2) by simp
  then show ?thesis using assms
    by (simp add: tf_reshape_def Let_def)
qed

lemma tf_reshape_4:
  assumes "length (elems t) = a * b * c * d"
  shows "tf_reshape t [int a, int b, int c, int d] = Some \<lparr>shape = [a, b, c, d], elems = elems t\<rparr>"
proof -
  have "filter (\<lambda>d. d \<noteq> - 1) [int a, int b, int c, int d] = [int a, int b, int c, int d]"
    by simp
  moreover have "filter (\<lambda>d. d = - 1) [int a, int b, int c, int d] = []"
    by simp
  moreover have "\<not> list_ex (\<lambda>d. d < - 1) [int a, int b, int c, int d]" by simp
  ultimately show ?thesis using assms
    unfolding tf_reshape_def Let_def by (simp add: mult.assoc)
qed

lemma concat_map_rows_length:
  assumes "\<And>r. r \<in> set rs \<Longrightarrow> length (f r) = h"
  shows "length (concat (map f rs)) = length rs * h"
  using assms by (induction rs) auto


lemma matmul_one_hot_row:
  assumes r: "r = one_hot_row v (int j)" and j: "j < v"
    and rb: "length rb = v" "\<And>c. c \<in> set rb \<Longrightarrow> length c = h"
  shows "map (\<lambda>c. dot r (map (\<lambda>row. row ! c) rb)) [0..<h] = rb ! argmax_list r"
proof -
  have a: "argmax_list r = j" using r j by (simp add: argmax_one_hot_row)
  have len: "length (rb ! j) = h" using rb j by simp
  have "dot r (map (\<lambda>row. row ! c) rb) = rb ! j ! c" for c
    using dot_one_hot_row [OF j, of "map (\<lambda>row. row ! c) rb"] rb(1) j r by simp
  then have "map (\<lambda>c. dot r (map (\<lambda>row. row ! c) rb)) [0..<h] = map (\<lambda>c. rb ! j ! c) [0..<h]"
    by simp
  also have "\<dots> = rb ! j" using len by (simp add: list_eq_iff_nth_eq)
  finally show ?thesis using a by simp
qed

lemma is_one_hot_iff: "is_one_hot v r = (\<exists>j<v. r = one_hot_row v (int j))"
  by (auto simp: is_one_hot_def list_ex_iff)

lemma embed_is_gather:
  assumes wf: "wf_tensor hot" and sh: "shape hot = [b, l, w, v]"
    and oh: "one_hot_tensor hot"
    and vs: "v_size hp = int v" and hs: "hidden_size hp = int h" and vpos: "0 < v"
    and msh: "shape means = [v, h]" and mwf: "wf_tensor means"
  shows "tf_get_variable vs (outer @ [name]) ''z_to_dense'' [v_size hp, hidden_size hp] = Some means
         \<Longrightarrow> ae_embed_emb vs hot hp name outer
           = Some \<lparr>shape = [b, l, w, h],
                   elems = concat (map (\<lambda>r. rows h v (elems means) ! argmax_list r)
                                     (rows v (b * l * w) (elems hot)))\<rparr>"
    and "kmeans_x_means means hot
           = Some \<lparr>shape = [b, l, w, h],
                   elems = concat (map (\<lambda>r. rows h v (elems means) ! argmax_list r)
                                     (rows v (b * l * w) (elems hot)))\<rparr>"
proof -
  let ?n = "b * l * w"
  let ?ra = "rows v ?n (elems hot)"
  let ?rb = "rows h v (elems means)"
  have mlen: "length (elems means) = v * h" using msh mwf by (simp add: wf_tensor_def)
  have hlen: "length (elems hot) = ?n * v" using wf sh by (simp add: wf_tensor_def)
  have rb_len: "length c = h" if "c \<in> set ?rb" for c using length_row [OF mlen that] .
  have ra_len: "length r = v" if "r \<in> set ?ra" for r using length_row [OF hlen that] .
  have ra_oh: "\<exists>j<v. r = one_hot_row v (int j)" if "r \<in> set ?ra" for r
    using oh that sh by (simp add: one_hot_tensor_def list_all_iff is_one_hot_iff mult.assoc)
  have am_lt: "argmax_list r < v" if "r \<in> set ?ra" for r
    using ra_oh [OF that] by (auto simp: argmax_one_hot_row)
  have out_len: "length (concat (map (\<lambda>r. ?rb ! argmax_list r) ?ra)) = ?n * h"
  proof -
    have "length (?rb ! argmax_list r) = h" if "r \<in> set ?ra" for r
      using am_lt [OF that] by (intro rb_len) simp
    then show ?thesis using concat_map_rows_length [of ?ra "\<lambda>r. ?rb ! argmax_list r" h] by simp
  qed
  show "ae_embed_emb vs hot hp name outer
           = Some \<lparr>shape = [b, l, w, h], elems = concat (map (\<lambda>r. ?rb ! argmax_list r) ?ra)\<rparr>"
    if var: "tf_get_variable vs (outer @ [name]) ''z_to_dense'' [v_size hp, hidden_size hp] = Some means"
  proof -
    have flat: "tf_reshape hot [- 1, v_size hp] = Some \<lparr>shape = [?n, v], elems = elems hot\<rparr>"
      using tf_reshape_flat [OF hlen vpos] vs by simp
    have rowmap: "map (\<lambda>r. map (\<lambda>j. dot r (map (\<lambda>c. c ! j) ?rb)) [0..<h]) ?ra
                  = map (\<lambda>r. ?rb ! argmax_list r) ?ra"
    proof (rule map_cong [OF refl])
      fix r assume r: "r \<in> set ?ra"
      from ra_oh [OF r] obtain j where j: "j < v" "r = one_hot_row v (int j)" by blast
      show "map (\<lambda>j. dot r (map (\<lambda>c. c ! j) ?rb)) [0..<h] = ?rb ! argmax_list r"
        using matmul_one_hot_row [OF j(2) j(1), of ?rb h] rb_len by simp
    qed
    have mm: "tf_matmul \<lparr>shape = [?n, v], elems = elems hot\<rparr> means False
              = Some \<lparr>shape = [?n, h], elems = concat (map (\<lambda>r. ?rb ! argmax_list r) ?ra)\<rparr>"
      by (simp add: tf_matmul_def Let_def msh rowmap)
    have resh: "tf_reshape \<lparr>shape = [?n, h], elems = concat (map (\<lambda>r. ?rb ! argmax_list r) ?ra)\<rparr>
                  [int b, int l, int w, hidden_size hp]
              = Some \<lparr>shape = [b, l, w, h], elems = concat (map (\<lambda>r. ?rb ! argmax_list r) ?ra)\<rparr>"
      using tf_reshape_4 [of "\<lparr>shape = [?n, h], elems = concat (map (\<lambda>r. ?rb ! argmax_list r) ?ra)\<rparr>" b l w h]
        out_len hs by simp
    show ?thesis
      unfolding ae_embed_emb_def
      by (simp only: var flat mm Option.bind.simps) (simp add: shape_at_def sh resh)
  qed
  show "kmeans_x_means means hot
           = Some \<lparr>shape = [b, l, w, h], elems = concat (map (\<lambda>r. ?rb ! argmax_list r) ?ra)\<rparr>"
  proof -
    have am: "tf_argmax hot = Some \<lparr>shape = [b, l, w], elems = map (\<lambda>r. int (argmax_list r)) ?ra\<rparr>"
      using vpos by (simp add: tf_argmax_def sh mult.assoc)
    have inr: "list_all (\<lambda>i. 0 \<le> i \<and> i < int (hd (shape means))) (map (\<lambda>r. int (argmax_list r)) ?ra)"
      using am_lt by (simp add: list_all_iff msh)
    have rowmap: "map (\<lambda>r. take h (drop (argmax_list r * h) (elems means))) ?ra
                  = map (\<lambda>r. ?rb ! argmax_list r) ?ra"
      by (rule map_cong [OF refl]) (simp add: nth_rows am_lt)
    have "tf_gather means \<lparr>shape = [b, l, w], elems = map (\<lambda>r. int (argmax_list r)) ?ra\<rparr>
          = Some \<lparr>shape = [b, l, w, h], elems = concat (map (\<lambda>r. ?rb ! argmax_list r) ?ra)\<rparr>"
      using inr by (simp add: tf_gather_def msh comp_def rowmap)
    then show ?thesis unfolding kmeans_x_means_def by (simp only: am Option.bind.simps)
  qed
qed


text \<open>
  C6.  For a one-hot tensor \<open>hot\<close> over \<open>v_size\<close>, the embedding that \<open>ae_embed\<close> computes
  by multiplying the flattened \<open>hot\<close> with the variable \<open>z_to_dense\<close> is the tensor
  \<open>gather(means, argmax(hot, axis=-1))\<close> that \<open>kmeans\<close> uses as quantized values, for
  the same variable; \<open>ae_embed\<close> applies its dense layer to it.
\<close>

theorem ae_embed_is_kmeans_lookup:
  assumes "one_hot_tensor hot" and "shape hot = [b, l, w, v]" and "0 < v"
    and "v_size hp = int v" and "hidden_size hp = int h"
    and "tf_get_variable vs (outer @ [name]) ''z_to_dense'' [v_size hp, hidden_size hp] = Some means"
  shows "ae_embed_emb vs hot hp name outer = kmeans_x_means means hot
    \<and> (\<exists>e. kmeans_x_means means hot = Some e \<and> shape e = [b, l, w, h])
    \<and> ae_embed dense vs hot hp name outer
        = Option.bind (kmeans_x_means means hot)
            (\<lambda>emb. dense (outer @ [name, ''unnormalize'']) emb (hidden_size hp))"
proof -
  have wf: "wf_tensor hot" using assms(1) by (simp add: one_hot_tensor_def)
  have msh: "shape means = [v, h]" and mwf: "wf_tensor means"
    using tf_get_variable_Some [OF assms(6)] assms(4,5) by simp_all
  note e = embed_is_gather [OF wf assms(2) assms(1) assms(4) assms(5) assms(3) msh mwf]
  have "ae_embed_emb vs hot hp name outer = kmeans_x_means means hot"
    by (simp only: e(1) [OF assms(6)] e(2))
  moreover have "\<exists>e. kmeans_x_means means hot = Some e \<and> shape e = [b, l, w, h]"
    by (simp add: e(2))
  ultimately show ?thesis by (simp add: ae_embed_def)
qed

lemma example_hot_one_hot: "one_hot_tensor example_hot"
  by (simp add: one_hot_tensor_def example_hot_def rows_def is_one_hot_def one_hot_row_def
        upt_rec)

lemma example_store_variable:
  "tf_get_variable example_store ([] @ [''ae'']) ''z_to_dense''
     [v_size example_hparams, hidden_size example_hparams] = Some example_means"
  by (simp add: tf_get_variable_def example_store_def example_means_def example_hparams_def)

lemma example_lookup:
  "kmeans_x_means example_means example_hot = Some \<lparr>shape = [1, 2, 1, 2], elems = [0, 2, 1, 0]\<rparr>"
  by (simp add: kmeans_x_means_def tf_argmax_def tf_gather_def example_hot_def example_means_def
        rows_def argmax_list_def upt_rec)

theorem ae_embed_is_kmeans_lookup_witness:
  "one_hot_tensor example_hot \<and> shape example_hot = [1, 2, 1, 2]
   \<and> v_size example_hparams = int 2 \<and> hidden_size example_hparams = int 2
   \<and> tf_get_variable example_store [''ae''] ''z_to_dense''
        [v_size example_hparams, hidden_size example_hparams] = Some example_means
   \<and> ae_embed_emb example_store example_hot example_hparams ''ae'' []
        = Some \<lparr>shape = [1, 2, 1, 2], elems = [0, 2, 1, 0]\<rparr>
   \<and> ae_embed (\<lambda>sc t n. Some t) example_store example_hot example_hparams ''ae'' []
        = Some \<lparr>shape = [1, 2, 1, 2], elems = [0, 2, 1, 0]\<rparr>"
proof -
  have s: "shape example_hot = [1, 2, 1, 2]" by (simp add: example_hot_def)
  have v: "v_size example_hparams = int 2" and h: "hidden_size example_hparams = int 2"
    by (simp_all add: example_hparams_def)
  have p: "0 < (2::nat)" by simp
  show ?thesis
    using ae_embed_is_kmeans_lookup [OF example_hot_one_hot s p v h example_store_variable,
        of "\<lambda>sc t n. Some t"]
      example_hot_one_hot example_store_variable s v h
    by (simp add: example_lookup)
qed

subsection \<open>The value of nearest\<close>

lemma rows_concat: "(\<And>r. r \<in> set rs \<Longrightarrow> length r = h) \<Longrightarrow> rows h (length rs) (concat rs) = rs"
proof (induction rs)
  case Nil
  then show ?case by simp
next
  case (Cons r rs)
  then show ?case by (simp add: rows_Suc)
qed

lemma rows_map2:
  "rows h n (map2 f d e) = map2 (map2 f) (rows h n d) (rows h n e)"
proof (rule nth_equalityI)
  show "length (rows h n (map2 f d e)) = length (map2 (map2 f) (rows h n d) (rows h n e))"
    by simp
next
  fix i assume "i < length (rows h n (map2 f d e))"
  then have i: "i < n" by simp
  then show "rows h n (map2 f d e) ! i = map2 (map2 f) (rows h n d) (rows h n e) ! i"
    by (simp add: nth_rows take_map drop_map take_zip drop_zip)
qed

lemma rows_map: "rows h n (map f d) = map (map f) (rows h n d)"
  by (simp add: rows_def take_map drop_map)

lemma tf_neg_neg [simp]: "tf_neg (tf_neg t) = t"
  by (simp add: tf_neg_def tmap_def comp_def)


lemma nearest_value:
  assumes wf: "wf_tensor x" and sh: "shape x = [b, l, w, h]" and hpos: "0 < h"
    and hs: "hidden_size hp = int h" and vs: "v_size hp = int v" and vpos: "0 < v"
    and mwf: "wf_tensor means" and msh: "shape means = [v, h]"
  shows "nearest x means hp =
    Some \<lparr>shape = [b, l, w, v],
          elems = concat (map (\<lambda>r. one_hot_row v
                     (int (argmax_list (map (dot r) (map l2_row (rows h v (elems means)))))))
                   (rows h (b * l * w) (elems x)))\<rparr>"
proof -
  let ?n = "b * l * w"
  let ?ra = "rows h ?n (elems x)"
  let ?rm = "rows h v (elems means)"
  define rn where "rn = map l2_row ?rm"
  define sim where "sim = map (\<lambda>r. map (dot r) rn) ?ra"
  have mlen: "length (elems means) = v * h" using msh mwf by (simp add: wf_tensor_def)
  have xlen: "length (elems x) = ?n * h" using wf sh by (simp add: wf_tensor_def)
  have norm: "tf_nn_l2_normalize means 1
      = Some \<lparr>shape = [v, h], elems = concat rn\<rparr>"
    by (simp add: tf_nn_l2_normalize_def tf_stop_gradient_def msh rn_def)
  have rn_len: "length r = h" if "r \<in> set rn" for r
    using that length_row [OF mlen] by (auto simp: l2_row_def rn_def)
  have rn_n: "length rn = v" by (simp add: rn_def)
  have rows_rn: "rows h v (concat rn) = rn"
    using rows_concat [of rn h] rn_len rn_n by simp
  have flat: "tf_reshape x [- 1, hidden_size hp]
      = Some \<lparr>shape = [?n, h], elems = elems x\<rparr>"
    using tf_reshape_flat [OF xlen hpos] hs by (simp add: tf_stop_gradient_def)
  have mm: "tf_matmul \<lparr>shape = [?n, h], elems = elems x\<rparr> \<lparr>shape = [v, h], elems = concat rn\<rparr> True
      = Some \<lparr>shape = [?n, v], elems = concat sim\<rparr>"
    by (simp add: tf_matmul_def Let_def rows_rn sim_def)
  have sim_len: "length r = v" if "r \<in> set sim" for r using that by (auto simp: sim_def rn_n)
  have sim_n: "length sim = ?n" by (simp add: sim_def)
  have rows_sim: "rows v ?n (concat sim) = sim"
    using rows_concat [of sim v] sim_len sim_n by simp
  have topk: "tf_nn_top_k_1 \<lparr>shape = [?n, v], elems = concat sim\<rparr>
      = Some (\<lparr>shape = [?n, 1], elems = map (\<lambda>r. r ! argmax_list r) sim\<rparr>,
              \<lparr>shape = [?n, 1], elems = map (\<lambda>r. int (argmax_list r)) sim\<rparr>)"
    using vpos by (simp add: tf_nn_top_k_1_def Let_def rows_sim)
  have sq: "tf_squeeze \<lparr>shape = [?n, 1], elems = map (\<lambda>r. int (argmax_list r)) sim\<rparr> 1
      = Some \<lparr>shape = [?n], elems = map (\<lambda>r. int (argmax_list r)) sim\<rparr>"
    by (simp add: tf_squeeze_def)
  define hot where "hot = concat (map (\<lambda>r. one_hot_row v (int (argmax_list (map (dot r) rn)))) ?ra)"
  have oh: "tf_one_hot \<lparr>shape = [?n], elems = map (\<lambda>r. int (argmax_list r)) sim\<rparr> (v_size hp)
      = Some \<lparr>shape = [?n, v], elems = hot\<rparr>"
    by (simp add: tf_one_hot_def vs comp_def hot_def sim_def)
  have hot_len: "length hot = b * l * w * v"
    unfolding hot_def
    using concat_map_rows_length [of ?ra "\<lambda>r. one_hot_row v (int (argmax_list (map (dot r) rn)))" v]
    by simp
  have resh: "tf_reshape \<lparr>shape = [?n, v], elems = hot\<rparr> [int b, int l, int w, v_size hp]
      = Some \<lparr>shape = [b, l, w, v], elems = hot\<rparr>"
    using tf_reshape_4 [of "\<lparr>shape = [?n, v], elems = hot\<rparr>" b l w v] hot_len vs by simp
  have dims: "shape_at x 0 = Some (int b)"
    "shape_at x 1 = Some (int l)"
    "shape_at x 2 = Some (int w)"
    by (simp_all add: shape_at_def tf_stop_gradient_def sh)
  have "nearest x means hp = Some \<lparr>shape = [b, l, w, v], elems = hot\<rparr>"
    unfolding nearest_def Let_def tf_stop_gradient_def
    by (simp only: norm flat mm tf_neg_neg topk sq oh dims resh Option.bind.simps prod.case)
  then show ?thesis by (simp only: hot_def rn_def)
qed

subsection \<open>Vector quantization\<close>

lemma map_rows_nth: "map f (rows h n d) = map (\<lambda>p. f (rows h n d ! p)) [0..<n]"
  by (rule nth_equalityI) simp_all

lemma sum_list_map2_nth:
  "length r = h \<Longrightarrow> length s = h \<Longrightarrow> sum_list (map2 f r s) = (\<Sum>k<h. f (r ! k) (s ! k))"
  by (simp add: sum_list_sum_nth atLeast0LessThan)

lemma kmeans_value:
  assumes wf: "wf_tensor x" and sh: "shape x = [b, l, w, h]" and hpos: "0 < h"
    and hs: "hidden_size hp = int h" and vs: "v_size hp = int v" and vpos: "0 < v"
    and mwf: "wf_tensor means" and msh: "shape means = [v, h]"
    and npos: "0 < b * l * w"
    and idx: "idx = (\<lambda>p. argmax_list (map (dot (rows h (b * l * w) (elems x) ! p))
                                      (map l2_row (rows h v (elems means)))))"
  shows "kmeans x means hp name =
    Some (\<lparr>shape = [b, l, w, v],
           elems = concat (map (\<lambda>p. one_hot_row v (int (idx p))) [0..<b * l * w])\<rparr>,
          10 * ((\<Sum>p<b * l * w. \<Sum>k<h.
                   (rows h (b * l * w) (elems x) ! p ! k - rows h v (elems means) ! idx p ! k)\<^sup>2)
                / real (b * l * w)))"
proof -
  let ?n = "b * l * w"
  define ra where "ra = rows h ?n (elems x)"
  define rm where "rm = rows h v (elems means)"
  define rn where "rn = map l2_row rm"
  have idx': "idx p = argmax_list (map (dot (ra ! p)) rn)" for p
    by (simp only: idx ra_def rn_def rm_def)
  define hot where "hot = \<lparr>shape = [b, l, w, v],
      elems = concat (map (\<lambda>p. one_hot_row v (int (idx p))) [0..<?n])\<rparr>"
  have mlen: "length (elems means) = v * h" using msh mwf by (simp add: wf_tensor_def)
  have xlen: "length (elems x) = ?n * h" using wf sh by (simp add: wf_tensor_def)
  have ra_len: "length (ra ! p) = h" if "p < ?n" for p
    using length_row [OF xlen, of "ra ! p"] that by (simp add: ra_def)
  have rm_len: "length (rm ! j) = h" if "j < v" for j
    using length_row [OF mlen, of "rm ! j"] that by (simp add: rm_def)
  have idx_lt: "idx p < v" for p
  proof -
    have "map (dot (ra ! p)) rn \<noteq> []" using vpos by (auto simp: rn_def rm_def rows_def)
    from argmax_list_spec(1) [OF this] show ?thesis by (simp add: idx' rn_def rm_def)
  qed
  have near: "nearest x means hp = Some hot"
    unfolding hot_def nearest_value [OF wf sh hpos hs vs vpos mwf msh]
    by (simp add: map_rows_nth [of _ h ?n "elems x"] idx ra_def)
  have hot_rows: "rows v ?n (elems hot) = map (\<lambda>p. one_hot_row v (int (idx p))) [0..<?n]"
  proof -
    have "rows v (length (map (\<lambda>p. one_hot_row v (int (idx p))) [0..<?n]))
            (concat (map (\<lambda>p. one_hot_row v (int (idx p))) [0..<?n]))
          = map (\<lambda>p. one_hot_row v (int (idx p))) [0..<?n]"
      by (rule rows_concat) auto
    then show ?thesis by (simp add: hot_def)
  qed
  have hot_wf: "wf_tensor hot"
    using concat_map_rows_length [of "[0..<?n]" "\<lambda>p. one_hot_row v (int (idx p))" v]
    by (simp add: hot_def wf_tensor_def)
  have hot_oh: "one_hot_tensor hot"
    unfolding one_hot_tensor_def
    using hot_wf hot_rows idx_lt
    by (auto simp: hot_def list_all_iff is_one_hot_iff mult.assoc)
  define xm where "xm = concat (map (\<lambda>p. rm ! idx p) [0..<?n])"
  have sel: "kmeans_x_means means hot = Some \<lparr>shape = [b, l, w, h], elems = xm\<rparr>"
  proof -
    have "map (\<lambda>r. rows h v (elems means) ! argmax_list r) (rows v ?n (elems hot))
        = map (\<lambda>p. rm ! idx p) [0..<?n]"
      unfolding hot_rows using idx_lt by (simp add: comp_def argmax_one_hot_row rm_def)
    then show ?thesis
      using embed_is_gather(2) [OF hot_wf _ hot_oh vs hs vpos msh mwf, of b l w]
      by (simp add: hot_def xm_def)
  qed
  have xm_rows: "rows h ?n xm = map (\<lambda>p. rm ! idx p) [0..<?n]"
  proof -
    have "rows h (length (map (\<lambda>p. rm ! idx p) [0..<?n])) (concat (map (\<lambda>p. rm ! idx p) [0..<?n]))
          = map (\<lambda>p. rm ! idx p) [0..<?n]"
      by (rule rows_concat) (use rm_len idx_lt in auto)
    then show ?thesis by (simp add: xm_def)
  qed
  have xm_len: "length xm = ?n * h"
    using concat_map_rows_length [of "[0..<?n]" "\<lambda>p. rm ! idx p" h] rm_len idx_lt
    by (simp add: xm_def)
  have diff: "tsub x \<lparr>shape = [b, l, w, h], elems = xm\<rparr>
      = Some \<lparr>shape = [b, l, w, h], elems = map2 (-) (elems x) xm\<rparr>"
    using wf sh xm_len by (simp add: tsub_def tbin_same wf_tensor_def mult.assoc)
  define kl where "kl = map (\<lambda>p. \<Sum>k<h. (ra ! p ! k - rm ! idx p ! k)\<^sup>2) [0..<?n]"
  have sq_rows: "map sum_list (rows h ?n (map (\<lambda>v. v * v) (map2 (-) (elems x) xm))) = kl"
  proof (rule nth_equalityI)
    show "length (map sum_list (rows h ?n (map (\<lambda>v. v * v) (map2 (-) (elems x) xm)))) = length kl"
      by (simp add: kl_def)
  next
    fix p assume "p < length (map sum_list (rows h ?n (map (\<lambda>v. v * v) (map2 (-) (elems x) xm))))"
    then have p: "p < ?n" by simp
    have "rows h ?n (map (\<lambda>v. v * v) (map2 (-) (elems x) xm))
        = map (map (\<lambda>v. v * v)) (map2 (map2 (-)) ra (rows h ?n xm))"
      unfolding ra_def by (subst rows_map, subst rows_map2) (rule refl)
    then have "rows h ?n (map (\<lambda>v. v * v) (map2 (-) (elems x) xm)) ! p
        = map (\<lambda>v. v * v) (map2 (-) (ra ! p) (rm ! idx p))"
      using p by (simp add: xm_rows ra_def)
    then have "rows h ?n (map (\<lambda>v. v * v) (map2 (-) (elems x) xm)) ! p
        = map2 (\<lambda>a c. (a - c) * (a - c)) (ra ! p) (rm ! idx p)"
      by (simp add: split_def)
    then have "sum_list (rows h ?n (map (\<lambda>v. v * v) (map2 (-) (elems x) xm)) ! p)
        = (\<Sum>k<h. (ra ! p ! k - rm ! idx p ! k) * (ra ! p ! k - rm ! idx p ! k))"
      using sum_list_map2_nth [OF ra_len [OF p] rm_len [OF idx_lt [of p]]] by simp
    then show "map sum_list (rows h ?n (map (\<lambda>v. v * v) (map2 (-) (elems x) xm))) ! p = kl ! p"
      using p by (simp add: kl_def power2_eq_square)
  qed
  have rs: "tf_reduce_sum_last (tf_square \<lparr>shape = [b, l, w, h], elems = map2 (-) (elems x) xm\<rparr>)
      = Some \<lparr>shape = [b, l, w], elems = kl\<rparr>"
    using sq_rows by (simp add: tf_reduce_sum_last_def tf_square_def tmap_def mult.assoc)
  have kl_ne: "kl \<noteq> []" using npos by (simp add: kl_def)
  have rmean: "tf_reduce_mean \<lparr>shape = [b, l, w], elems = kl\<rparr>
      = Some ((\<Sum>p<?n. \<Sum>k<h. (ra ! p ! k - rm ! idx p ! k)\<^sup>2) / real ?n)"
    using kl_ne
    by (simp add: tf_reduce_mean_def mean_def)
       (simp add: kl_def interv_sum_list_conv_sum_set_nat atLeast0LessThan)
  have "kmeans x means hp name
      = Some (hot, (\<Sum>p<?n. \<Sum>k<h. (ra ! p ! k - rm ! idx p ! k)\<^sup>2) / real ?n * 10)"
    unfolding kmeans_def
    by (simp only: near sel diff rs rmean Option.bind.simps) simp
  then show ?thesis by (simp add: hot_def ra_def rm_def)
qed


text \<open>
  C1.  For \<open>x\<close> of shape \<open>[b, l, w, hidden_size]\<close> and a means table of shape
  \<open>[v_size, hidden_size]\<close>, \<open>nearest\<close> returns the one-hot encoding over \<open>v_size\<close> of an
  index, per hidden-size vector of \<open>x\<close>, that maximizes the inner product of the vector
  with the l2-normalized rows of \<open>means\<close>; \<open>kmeans\<close> returns that encoding and the loss
  \<open>10\<close> times the mean over positions of the summed squared difference between the
  vector and the selected row of \<open>means\<close>.
\<close>

theorem nearest_kmeans_quantize:
  assumes "wf_tensor x" and "shape x = [b, l, w, h]" and "0 < h"
    and "hidden_size hp = int h" and "v_size hp = int v" and "0 < v"
    and "wf_tensor means" and "shape means = [v, h]"
    and "n = b * l * w"
  shows "\<exists>idx.
      (\<forall>p<n. idx p < v \<and>
         (\<forall>j<v. dot (rows h n (elems x) ! p) (l2_row (rows h v (elems means) ! j))
                 \<le> dot (rows h n (elems x) ! p) (l2_row (rows h v (elems means) ! idx p))))
    \<and> nearest x means hp
        = Some \<lparr>shape = [b, l, w, v],
                elems = concat (map (\<lambda>p. one_hot_row v (int (idx p))) [0..<n])\<rparr>
    \<and> (0 < n \<longrightarrow>
        kmeans x means hp name
        = Some (\<lparr>shape = [b, l, w, v],
                 elems = concat (map (\<lambda>p. one_hot_row v (int (idx p))) [0..<n])\<rparr>,
                10 * ((\<Sum>p<n. \<Sum>k<h.
                         (rows h n (elems x) ! p ! k - rows h v (elems means) ! idx p ! k)\<^sup>2)
                      / real n)))"
proof -
  define idx where "idx = (\<lambda>p. argmax_list (map (dot (rows h (b * l * w) (elems x) ! p))
                                      (map l2_row (rows h v (elems means)))))"
  have best: "idx p < v \<and>
         (\<forall>j<v. dot (rows h n (elems x) ! p) (l2_row (rows h v (elems means) ! j))
                 \<le> dot (rows h n (elems x) ! p) (l2_row (rows h v (elems means) ! idx p)))" for p
  proof -
    let ?s = "map (dot (rows h (b * l * w) (elems x) ! p)) (map l2_row (rows h v (elems means)))"
    have len: "length ?s = v" by simp
    have ne: "?s \<noteq> []" using assms(6) by (simp add: rows_def)
    have i: "idx p = argmax_list ?s" by (simp add: idx_def)
    have lt: "idx p < v" using argmax_list_spec(1) [OF ne] unfolding i by simp
    have "\<forall>j<v. ?s ! j \<le> ?s ! idx p" using argmax_list_spec(2) [OF ne] unfolding i by simp
    then show ?thesis using lt assms(9) by simp
  qed
  have near: "nearest x means hp
        = Some \<lparr>shape = [b, l, w, v],
                elems = concat (map (\<lambda>p. one_hot_row v (int (idx p))) [0..<n])\<rparr>"
    unfolding nearest_value [OF assms(1-8)] assms(9)
    by (simp add: map_rows_nth [of _ h "b * l * w" "elems x"] idx_def)
  have km: "kmeans x means hp name
        = Some (\<lparr>shape = [b, l, w, v],
                 elems = concat (map (\<lambda>p. one_hot_row v (int (idx p))) [0..<n])\<rparr>,
                10 * ((\<Sum>p<n. \<Sum>k<h.
                         (rows h n (elems x) ! p ! k - rows h v (elems means) ! idx p ! k)\<^sup>2)
                      / real n))" if "0 < n"
    using kmeans_value [OF assms(1-8) _ idx_def, of name] that unfolding assms(9) by simp
  show ?thesis using best near km by blast
qed

lemma example_nearest:
  "nearest example_x example_means example_hparams
     = Some \<lparr>shape = [1, 2, 1, 2], elems = [1, 0, 0, 1]\<rparr>"
  by (simp add: nearest_def tf_stop_gradient_def tf_nn_l2_normalize_def tf_reshape_def
        tf_matmul_def tf_neg_def tmap_def tf_nn_top_k_1_def tf_squeeze_def tf_one_hot_def
        shape_at_def example_x_def example_means_def example_hparams_def rows_def l2_row_def
        dot_def argmax_list_def one_hot_row_def Let_def upt_rec)

lemma example_kmeans:
  "kmeans example_x example_means example_hparams ''kmeans''
     = Some (\<lparr>shape = [1, 2, 1, 2], elems = [1, 0, 0, 1]\<rparr>, 5)"
  unfolding kmeans_def
  by (simp only: example_nearest Option.bind.simps)
     (simp add: kmeans_x_means_def tf_argmax_def tf_gather_def
        tsub_def tbin_same tf_square_def tmap_def tf_reduce_sum_last_def tf_reduce_mean_def
        mean_def example_x_def example_means_def rows_def argmax_list_def upt_rec)


theorem nearest_kmeans_quantize_witness:
  "wf_tensor example_x \<and> shape example_x = [1, 2, 1, 2] \<and> (0::nat) < 2
   \<and> hidden_size example_hparams = int 2 \<and> v_size example_hparams = int 2
   \<and> wf_tensor example_means \<and> shape example_means = [2, 2] \<and> (2::nat) = 1 * 2 * 1
   \<and> (\<exists>idx.
        (\<forall>p<2. idx p < 2 \<and>
           (\<forall>j<2. dot (rows 2 2 (elems example_x) ! p) (l2_row (rows 2 2 (elems example_means) ! j))
                   \<le> dot (rows 2 2 (elems example_x) ! p)
                        (l2_row (rows 2 2 (elems example_means) ! idx p))))
      \<and> nearest example_x example_means example_hparams
          = Some \<lparr>shape = [1, 2, 1, 2],
                  elems = concat (map (\<lambda>p. one_hot_row 2 (int (idx p))) [0..<2])\<rparr>
      \<and> (0 < (2::nat) \<longrightarrow>
          kmeans example_x example_means example_hparams ''kmeans''
          = Some (\<lparr>shape = [1, 2, 1, 2],
                   elems = concat (map (\<lambda>p. one_hot_row 2 (int (idx p))) [0..<2])\<rparr>,
                  10 * ((\<Sum>p<2. \<Sum>k<2.
                           (rows 2 2 (elems example_x) ! p ! k
                              - rows 2 2 (elems example_means) ! idx p ! k)\<^sup>2)
                        / real 2))))
   \<and> nearest example_x example_means example_hparams
        = Some \<lparr>shape = [1, 2, 1, 2], elems = [1, 0, 0, 1]\<rparr>
   \<and> kmeans example_x example_means example_hparams ''kmeans''
        = Some (\<lparr>shape = [1, 2, 1, 2], elems = [1, 0, 0, 1]\<rparr>, 5)"
proof -
  have h1: "wf_tensor example_x" by (simp add: example_x_def wf_tensor_def)
  have h2: "shape example_x = [1, 2, 1, 2]" by (simp add: example_x_def)
  have h3: "(0::nat) < 2" by simp
  have h4: "hidden_size example_hparams = int 2" by (simp add: example_hparams_def)
  have h5: "v_size example_hparams = int 2" by (simp add: example_hparams_def)
  have h7: "wf_tensor example_means" by (simp add: example_means_def wf_tensor_def)
  have h8: "shape example_means = [2, 2]" by (simp add: example_means_def)
  have h9: "(2::nat) = 1 * 2 * 1" by simp
  note t = nearest_kmeans_quantize [OF h1 h2 h3 h4 h5 h3 h7 h8 h9, of "''kmeans''"]
  show ?thesis
    by (intro conjI h1 h2 h3 h4 h5 h7 h8 h9 t example_nearest example_kmeans)
qed

subsection \<open>The VAE reparameterization\<close>

lemma sum_list_concat_rows: "sum_list (concat rs) = sum_list (map sum_list rs)"
  by (induction rs) auto

lemma sum_list_rows:
  "length d = k * n \<Longrightarrow> sum_list (map sum_list (rows n k d)) = sum_list d"
  using concat_rows [of d k n] sum_list_concat_rows [of "rows n k d"] by simp

lemma sum_list_scaled:
  "sum_list (map (\<lambda>r. c * (f r / n)) rs) = c * (sum_list (map f rs) / (n::real))"
  by (induction rs) (auto simp: algebra_simps add_divide_distrib)

lemma mean_of_row_means:
  assumes "length d = k * n" and "0 < n" and "0 < k"
  shows "mean (map (\<lambda>v. c * v) (map mean (rows n k d))) = c * sum_list d / real (k * n)"
proof -
  have rl: "length r = n" if "r \<in> set (rows n k d)" for r
    using length_row [OF assms(1) that] .
  have "map (\<lambda>v. c * v) (map mean (rows n k d))
      = map (\<lambda>r. c * (sum_list r / real n)) (rows n k d)"
    unfolding map_map by (rule map_cong [OF refl]) (simp add: mean_def rl)
  then have "sum_list (map (\<lambda>v. c * v) (map mean (rows n k d)))
      = c * (sum_list (map sum_list (rows n k d)) / real n)"
    by (simp only: sum_list_scaled)
  then have "sum_list (map (\<lambda>v. c * v) (map mean (rows n k d))) = c * (sum_list d / real n)"
    by (simp only: sum_list_rows [OF assms(1)])
  then show ?thesis using assms(2,3) by (simp add: mean_def)
qed

lemma vae_value:
  assumes mu: "dense (outer @ [name, ''mu'']) x (z_size hp) = Some mu"
    and ls: "dense (outer @ [name, ''log_sigma'']) x (z_size hp) = Some ls"
    and xs: "shape x = [b, l, 1, c]"
    and ms: "shape mu = [b, l, 1, z]" "wf_tensor mu"
    and ss: "shape ls = [b, l, 1, z]" "wf_tensor ls"
    and zs: "z_size hp = int z" and pos: "0 < b * l" "0 < z"
  shows "vae dense rng x hp name outer =
    Some (\<lparr>shape = [b, l, 1, z],
           elems = map (\<lambda>i. elems mu ! i + exp (elems ls ! i / 2) * rng i) [0..<b * l * z]\<rparr>,
          (\<Sum>i<b * l * z. 0.5 * (exp (elems ls ! i) + (elems mu ! i)\<^sup>2 - 1 - elems ls ! i))
            / real (b * l * z),
          mu, ls)"
proof -
  let ?N = "b * l * z"
  have ml: "length (elems mu) = ?N" and sl: "length (elems ls) = ?N"
    using ms ss by (simp_all add: wf_tensor_def)
  define eps where "eps = \<lparr>shape = [b, l, 1, z], elems = map rng [0..<?N]\<rparr>"
  have e: "vae_epsilon rng x hp = Some eps"
    by (simp add: vae_epsilon_def shape_at_def xs to_shape_def zs tf_random_normal_def eps_def mult.assoc)
  have ewf: "wf_tensor eps" "shape eps = [b, l, 1, z]" by (simp_all add: eps_def mult.assoc)
  define half where "half = \<lparr>shape = [b, l, 1, z], elems = map (\<lambda>a. a / 2) (elems ls)\<rparr>"
  have h: "tbin (/) ls (scalar 2) = Some half"
    using ss by (simp add: tbin_scalar_right half_def)
  define noise where "noise = \<lparr>shape = [b, l, 1, z],
      elems = map2 (*) (map exp (map (\<lambda>a. a / 2) (elems ls))) (map rng [0..<?N])\<rparr>"
  have n: "tmul (tmap exp half) eps = Some noise"
    using sl by (simp add: tmul_def tmap_def half_def eps_def tbin_same noise_def)
  define zz where "zz = \<lparr>shape = [b, l, 1, z],
      elems = map (\<lambda>i. elems mu ! i + exp (elems ls ! i / 2) * rng i) [0..<?N]\<rparr>"
  have zl: "map2 (+) (elems mu) (elems noise)
      = map (\<lambda>i. elems mu ! i + exp (elems ls ! i / 2) * rng i) [0..<?N]"
    using ml sl by (auto simp: list_eq_iff_nth_eq noise_def)
  have nwf: "wf_tensor noise" using sl by (simp add: noise_def mult.assoc)
  have nsh: "shape mu = shape noise" using ms by (simp add: noise_def)
  have za: "tadd mu noise = Some zz"
    unfolding tadd_def tbin_same [OF ms(2) nwf nsh] by (simp add: zz_def ms zl)
  define f where "f = (\<lambda>i. exp (elems ls ! i) + (elems mu ! i)\<^sup>2 - 1 - elems ls ! i)"
  define a1 where "a1 = \<lparr>shape = [b, l, 1, z],
      elems = map2 (+) (map exp (elems ls)) (map (\<lambda>v. v * v) (elems mu))\<rparr>"
  have a1: "tadd (tmap exp ls) (tf_square mu) = Some a1"
    using ms ss ml sl by (simp add: tadd_def tmap_def tf_square_def tbin_same a1_def)
  define a2 where "a2 = \<lparr>shape = [b, l, 1, z], elems = map (\<lambda>a. a - 1) (elems a1)\<rparr>"
  have a2: "tsub a1 (scalar 1) = Some a2"
    using ml sl by (simp add: tsub_def tbin_scalar_right a1_def a2_def)
  define a3 where "a3 = \<lparr>shape = [b, l, 1, z], elems = map f [0..<?N]\<rparr>"
  have a3l: "map2 (-) (elems a2) (elems ls) = map f [0..<?N]"
    using ml sl by (auto simp: list_eq_iff_nth_eq a2_def a1_def f_def power2_eq_square)
  have a2wf: "wf_tensor a2" using ml sl by (simp add: a2_def a1_def mult.assoc)
  have a2sh: "shape a2 = shape ls" using ss by (simp add: a2_def)
  have a3: "tsub a2 ls = Some a3"
    unfolding tsub_def tbin_same [OF a2wf ss(2) a2sh] by (simp add: a3_def a3l) (simp add: a2_def)
  define m where "m = \<lparr>shape = [b, l, 1], elems = map mean (rows z (b * l) (map f [0..<?N]))\<rparr>"
  have m: "tf_reduce_mean_last a3 = Some m"
    using pos by (simp add: tf_reduce_mean_last_def a3_def m_def)
  define kl where "kl = \<lparr>shape = [b, l, 1],
      elems = map (\<lambda>v. 0.5 * v) (map mean (rows z (b * l) (map f [0..<?N])))\<rparr>"
  have kl: "tmul (scalar 0.5) m = Some kl"
    by (simp add: tmul_def tbin_scalar_left m_def kl_def)
  have ne: "elems kl \<noteq> []" using pos by (simp add: kl_def rows_def)
  have "mean (elems kl) = 0.5 * sum_list (map f [0..<?N]) / real (b * l * z)"
    using mean_of_row_means [of "map f [0..<?N]" "b * l" z "0.5"] pos by (simp add: kl_def)
  also have "\<dots> = (\<Sum>i<?N. 0.5 * f i) / real ?N"
    by (simp add: interv_sum_list_conv_sum_set_nat atLeast0LessThan sum_distrib_left)
  finally have km: "tf_reduce_mean kl = Some ((\<Sum>i<?N. 0.5 * f i) / real ?N)"
    using ne by (simp add: tf_reduce_mean_def)
  have "vae dense rng x hp name outer = Some (zz, (\<Sum>i<?N. 0.5 * f i) / real ?N, mu, ls)"
    unfolding vae_def by (simp only: mu ls e h n za a1 a2 a3 m kl km Option.bind.simps)
  then show ?thesis by (simp only: zz_def f_def)
qed


text \<open>
  C4, as amended.  For \<open>x\<close> of shape \<open>[b, l, 1, c]\<close>, with \<open>mu\<close> and \<open>log_sigma\<close> the dense
  projections of \<open>x\<close> to \<open>z_size\<close>, \<open>vae\<close> draws \<open>epsilon\<close> with the shape of \<open>mu\<close> and
  returns \<open>z = mu + exp(log_sigma / 2) * epsilon\<close>, the mean over all elements of
  \<open>0.5 * (exp(log_sigma) + mu^2 - 1 - log_sigma)\<close>, \<open>mu\<close> and \<open>log_sigma\<close>.
\<close>

theorem vae_reparameterization:
  assumes "dense (outer @ [name, ''mu'']) x (z_size hp) = Some mu"
    and "dense (outer @ [name, ''log_sigma'']) x (z_size hp) = Some log_sigma"
    and "shape x = [b, l, 1, c]"
    and "shape mu = [b, l, 1, z]" and "wf_tensor mu"
    and "shape log_sigma = [b, l, 1, z]" and "wf_tensor log_sigma"
    and "z_size hp = int z" and "0 < b * l" and "0 < z"
  shows "\<exists>epsilon.
      vae_epsilon rng x hp = Some epsilon \<and> shape epsilon = shape mu \<and> wf_tensor epsilon
    \<and> elems epsilon = map rng [0..<b * l * z]
    \<and> vae dense rng x hp name outer =
        Some (\<lparr>shape = [b, l, 1, z],
               elems = map (\<lambda>i. elems mu ! i + exp (elems log_sigma ! i / 2) * elems epsilon ! i)
                         [0..<b * l * z]\<rparr>,
              (\<Sum>i<b * l * z. 0.5 * (exp (elems log_sigma ! i) + (elems mu ! i)\<^sup>2 - 1
                                       - elems log_sigma ! i))
                / real (b * l * z),
              mu, log_sigma)"
proof -
  let ?eps = "\<lparr>shape = [b, l, 1, z], elems = map rng [0..<b * l * z]\<rparr>"
  have e: "vae_epsilon rng x hp = Some ?eps"
    using assms(3,8)
    by (simp add: vae_epsilon_def shape_at_def to_shape_def tf_random_normal_def mult.assoc)
  have "map (\<lambda>i. elems mu ! i + exp (elems log_sigma ! i / 2) * elems ?eps ! i) [0..<b * l * z]
      = map (\<lambda>i. elems mu ! i + exp (elems log_sigma ! i / 2) * rng i) [0..<b * l * z]"
    by simp
  then show ?thesis
    using e assms(4) vae_value [where dense = dense and rng = rng, OF assms]
    by (intro exI [of _ ?eps]) (simp add: mult.assoc)
qed

lemma example_vae_wide:
  "vae (example_dense \<lparr>shape = [1, 1, 2, 1], elems = [0, 0]\<rparr>) example_rng
       \<lparr>shape = [1, 1, 2, 1], elems = [5, 7]\<rparr> (example_hparams\<lparr>z_size := 1\<rparr>) ''vae'' []
     = Some (\<lparr>shape = [1, 1, 2, 1], elems = [1, 1]\<rparr>, 0,
             \<lparr>shape = [1, 1, 2, 1], elems = [0, 0]\<rparr>, \<lparr>shape = [1, 1, 2, 1], elems = [0, 0]\<rparr>)"
  by (simp add: vae_def vae_epsilon_def example_dense_def example_rng_def example_hparams_def
        shape_at_def to_shape_def tf_random_normal_def tbin_def broadcast_shape_def
        broadcast_to_def scalar_def tmul_def tadd_def tsub_def tmap_def tf_square_def
        tf_reduce_mean_last_def tf_reduce_mean_def mean_def rows_def Let_def upt_rec
        numeral_2_eq_2)


lemma example_vae_wide_epsilon:
  "vae_epsilon example_rng \<lparr>shape = [1, 1, 2, 1], elems = [5, 7]\<rparr> (example_hparams\<lparr>z_size := 1\<rparr>)
     = Some \<lparr>shape = [1, 1, 1, 1], elems = [1]\<rparr>"
  by (simp add: vae_epsilon_def example_rng_def example_hparams_def shape_at_def to_shape_def
        tf_random_normal_def upt_rec)

theorem vae_wide_input_counterexample:
  "vae (example_dense \<lparr>shape = [1, 1, 2, 1], elems = [0, 0]\<rparr>) example_rng
       \<lparr>shape = [1, 1, 2, 1], elems = [5, 7]\<rparr> (example_hparams\<lparr>z_size := 1\<rparr>) ''vae'' []
     = Some (\<lparr>shape = [1, 1, 2, 1], elems = [1, 1]\<rparr>, 0,
             \<lparr>shape = [1, 1, 2, 1], elems = [0, 0]\<rparr>, \<lparr>shape = [1, 1, 2, 1], elems = [0, 0]\<rparr>)
   \<and> vae_epsilon example_rng \<lparr>shape = [1, 1, 2, 1], elems = [5, 7]\<rparr>
         (example_hparams\<lparr>z_size := 1\<rparr>)
     = Some \<lparr>shape = [1, 1, 1, 1], elems = [1]\<rparr>
   \<and> \<not> (\<exists>epsilon z kl mu log_sigma.
          vae (example_dense \<lparr>shape = [1, 1, 2, 1], elems = [0, 0]\<rparr>) example_rng
              \<lparr>shape = [1, 1, 2, 1], elems = [5, 7]\<rparr> (example_hparams\<lparr>z_size := 1\<rparr>) ''vae'' []
            = Some (z, kl, mu, log_sigma)
        \<and> vae_epsilon example_rng \<lparr>shape = [1, 1, 2, 1], elems = [5, 7]\<rparr>
              (example_hparams\<lparr>z_size := 1\<rparr>) = Some epsilon
        \<and> shape epsilon = shape mu)"
  using example_vae_wide example_vae_wide_epsilon by auto

lemma example_vae_narrow:
  "vae (example_dense \<lparr>shape = [1, 2, 1, 2], elems = [0, 0, 0, 0]\<rparr>) example_rng
       \<lparr>shape = [1, 2, 1, 1], elems = [5, 7]\<rparr> example_hparams ''vae'' []
     = Some (\<lparr>shape = [1, 2, 1, 2], elems = [1, 2, 3, 4]\<rparr>, 0,
             \<lparr>shape = [1, 2, 1, 2], elems = [0, 0, 0, 0]\<rparr>,
             \<lparr>shape = [1, 2, 1, 2], elems = [0, 0, 0, 0]\<rparr>)"
  by (simp add: vae_def vae_epsilon_def example_dense_def example_rng_def example_hparams_def
        shape_at_def to_shape_def tf_random_normal_def tbin_def broadcast_shape_def
        broadcast_to_def scalar_def tmul_def tadd_def tsub_def tmap_def tf_square_def
        tf_reduce_mean_last_def tf_reduce_mean_def mean_def rows_def Let_def upt_rec
        numeral_2_eq_2 eval_nat_numeral)

theorem vae_reparameterization_witness:
  "example_dense \<lparr>shape = [1, 2, 1, 2], elems = [0, 0, 0, 0]\<rparr> ([] @ [''vae'', ''mu''])
       \<lparr>shape = [1, 2, 1, 1], elems = [5, 7]\<rparr> (z_size example_hparams)
     = Some \<lparr>shape = [1, 2, 1, 2], elems = [0, 0, 0, 0]\<rparr>
   \<and> wf_tensor \<lparr>shape = [1, 2, 1, 2], elems = [0, 0, 0, 0 :: real]\<rparr>
   \<and> z_size example_hparams = int 2 \<and> (0::nat) < 1 * 2 \<and> (0::nat) < 2
   \<and> (\<exists>epsilon.
        vae_epsilon example_rng \<lparr>shape = [1, 2, 1, 1], elems = [5, 7]\<rparr> example_hparams
          = Some epsilon
      \<and> shape epsilon = shape \<lparr>shape = [1, 2, 1, 2], elems = [0, 0, 0, 0 :: real]\<rparr>
      \<and> wf_tensor epsilon
      \<and> elems epsilon = map example_rng [0..<1 * 2 * 2]
      \<and> vae (example_dense \<lparr>shape = [1, 2, 1, 2], elems = [0, 0, 0, 0]\<rparr>) example_rng
             \<lparr>shape = [1, 2, 1, 1], elems = [5, 7]\<rparr> example_hparams ''vae'' []
          = Some (\<lparr>shape = [1, 2, 1, 2],
                   elems = map (\<lambda>i. elems \<lparr>shape = [1, 2, 1, 2], elems = [0, 0, 0, 0 :: real]\<rparr> ! i
                                    + exp (elems \<lparr>shape = [1, 2, 1, 2], elems = [0, 0, 0, 0 :: real]\<rparr> ! i / 2)
                                      * elems epsilon ! i)
                             [0..<1 * 2 * 2]\<rparr>,
                  (\<Sum>i<1 * 2 * 2. 0.5 * (exp (elems \<lparr>shape = [1, 2, 1, 2], elems = [0, 0, 0, 0 :: real]\<rparr> ! i)
                        + (elems \<lparr>shape = [1, 2, 1, 2], elems = [0, 0, 0, 0 :: real]\<rparr> ! i)\<^sup>2 - 1
                        - elems \<lparr>shape = [1, 2, 1, 2], elems = [0, 0, 0, 0 :: real]\<rparr> ! i))
                    / real (1 * 2 * 2),
                  \<lparr>shape = [1, 2, 1, 2], elems = [0, 0, 0, 0]\<rparr>,
                  \<lparr>shape = [1, 2, 1, 2], elems = [0, 0, 0, 0]\<rparr>))
   \<and> vae (example_dense \<lparr>shape = [1, 2, 1, 2], elems = [0, 0, 0, 0]\<rparr>) example_rng
          \<lparr>shape = [1, 2, 1, 1], elems = [5, 7]\<rparr> example_hparams ''vae'' []
       = Some (\<lparr>shape = [1, 2, 1, 2], elems = [1, 2, 3, 4]\<rparr>, 0,
               \<lparr>shape = [1, 2, 1, 2], elems = [0, 0, 0, 0]\<rparr>,
               \<lparr>shape = [1, 2, 1, 2], elems = [0, 0, 0, 0]\<rparr>)"
proof -
  let ?mu = "\<lparr>shape = [1, 2, 1, 2], elems = [0, 0, 0, 0 :: real]\<rparr>"
  let ?x = "\<lparr>shape = [1, 2, 1, 1], elems = [5, 7 :: real]\<rparr>"
  have d1: "example_dense ?mu ([] @ [''vae'', ''mu'']) ?x (z_size example_hparams) = Some ?mu"
    and d2: "example_dense ?mu ([] @ [''vae'', ''log_sigma'']) ?x (z_size example_hparams) = Some ?mu"
    by (simp_all add: example_dense_def)
  have xs: "shape ?x = [1, 2, 1, 1]" and ms: "shape ?mu = [1, 2, 1, 2]" by simp_all
  have mw: "wf_tensor ?mu" by (simp add: wf_tensor_def)
  have zs: "z_size example_hparams = int 2" by (simp add: example_hparams_def)
  have p1: "(0::nat) < 1 * 2" and p2: "(0::nat) < 2" by simp_all
  note t = vae_reparameterization [where dense = "example_dense ?mu" and rng = example_rng,
      OF d1 d2 xs ms mw ms mw zs p1 p2]
  show ?thesis
    by (intro conjI d1 mw zs p1 p2 t example_vae_narrow)
qed

subsection \<open>Divisibility of the compressed length\<close>

lemma pad_to_same_length_divisible:
  assumes "0 < k"
  shows "k dvd fst (pad_to_same_length L L k)"
    and "L \<le> fst (pad_to_same_length L L k)"
    and "fst (pad_to_same_length L L k) < L + k"
    and "snd (pad_to_same_length L L k) = fst (pad_to_same_length L L k)"
proof -
  let ?P = "(L + k - 1) div k * k"
  have p: "fst (pad_to_same_length L L k) = (if 1 < k then ?P else L)"
    by (simp add: pad_to_same_length_def Let_def)
  have k1: "k = 1" if "\<not> 1 < k" using that assms by simp
  have m: "?P + (L + k - 1) mod k = L + k - 1" by (simp add: div_mult_mod_eq)
  have ml: "(L + k - 1) mod k < k" using assms by simp
  show "k dvd fst (pad_to_same_length L L k)" using k1 by (auto simp: p)
  have "L \<le> ?P" using m ml assms by arith
  then show "L \<le> fst (pad_to_same_length L L k)" by (simp add: p)
  have "?P < L + k" using m assms by arith
  then show "fst (pad_to_same_length L L k) < L + k" using assms by (simp add: p)
  show "snd (pad_to_same_length L L k) = fst (pad_to_same_length L L k)"
    by (simp add: pad_to_same_length_def Let_def)
qed

lemma strided_conv_length_even:
  assumes "even len" and "0 < len"
  shows "strided_conv_length pad 2 2 len = Some (len div 2)"
proof -
  obtain m where m: "len = 2 * m" using assms(1) by (elim evenE)
  then have "0 < m" using assms(2) by simp
  then show ?thesis by (cases pad) (auto simp: strided_conv_length_def m)
qed

lemma compress_length_loop_steps:
  assumes "2 ^ m dvd len" and "0 < len"
  shows "compress_length_loop pad (int i) (int (i + m)) len = Some (len div 2 ^ m)"
  using assms
proof (induction m arbitrary: i len)
  case 0
  then show ?case by (subst compress_length_loop.simps) simp
next
  case (Suc m)
  from Suc.prems(1) obtain q where q: "len = 2 ^ Suc m * q" by (elim dvdE)
  then have qpos: "0 < q" using Suc.prems(2) by (cases q) auto
  have ev: "even len" using q by simp
  have half: "len div 2 = 2 ^ m * q" using q by simp
  have c: "strided_conv_length pad 2 2 len = Some (len div 2)"
    using strided_conv_length_even [OF ev Suc.prems(2)] .
  have "compress_length_loop pad (int i) (int (i + Suc m)) len
      = compress_length_loop pad (int (Suc i)) (int (Suc i + m)) (len div 2)"
    by (subst compress_length_loop.simps) (simp add: c add.commute)
  also have "\<dots> = Some (len div 2 div 2 ^ m)"
    by (rule Suc.IH) (use half qpos in auto)
  also have "len div 2 div 2 ^ m = len div 2 ^ Suc m"
    by (simp add: div_mult2_eq)
  finally show ?case .
qed

lemma ae_decompress_length_loop_steps:
  "ae_decompress_length_loop (int i) (int (i + m)) d = d * 2 ^ m"
proof (induction m arbitrary: i d)
  case 0
  then show ?case by (subst ae_decompress_length_loop.simps) simp
next
  case (Suc m)
  have "ae_decompress_length_loop (int i) (int (i + Suc m)) d
      = ae_decompress_length_loop (int (Suc i)) (int (Suc i + m)) (d * 2)"
    by (subst ae_decompress_length_loop.simps)
       (simp add: decompress_step_length_def add.commute)
  also have "\<dots> = d * 2 * 2 ^ m" by (rule Suc.IH)
  finally show ?case by simp
qed

text \<open>
  C9.  With \<open>n\<close> compression steps, \<open>ae_transformer_internal\<close> pads non-empty targets to
  the least length \<open>P\<close> divisible by \<open>2^n\<close> that holds them; every compression
  convolution then receives an even length and halves it exactly; and the \<open>n\<close>
  doublings of \<open>ae_decompress\<close> give back \<open>P\<close>.
\<close>

theorem compress_length_divisible:
  assumes "0 < targets_length"
    and "n = nat (num_compress_steps hp)"
    and "P = fst (pad_to_same_length targets_length targets_length (2 ^ n))"
  shows "2 ^ n dvd P \<and> targets_length \<le> P \<and> P < targets_length + 2 ^ n
    \<and> (\<forall>i<n. compress_length_loop pad 0 (int i) P = Some (P div 2 ^ i)
            \<and> even (P div 2 ^ i)
            \<and> strided_conv_length pad 2 2 (P div 2 ^ i) = Some (P div 2 ^ Suc i))
    \<and> compress_length pad hp P = Some (P div 2 ^ n)
    \<and> ae_decompress_length hp (P div 2 ^ n) = P
    \<and> ae_transformer_internal_lengths pad hp targets_length = Some (P, P div 2 ^ n, P)"
proof -
  have kpos: "0 < (2::nat) ^ n" by simp
  note pd = pad_to_same_length_divisible [OF kpos, of targets_length, folded assms(3)]
  have Ppos: "0 < P" using pd(2) assms(1) by simp
  obtain q where q: "P = 2 ^ n * q" using pd(1) by (elim dvdE)
  have qpos: "0 < q" using q Ppos by (cases q) auto
  have steps: "compress_length_loop pad 0 (int i) P = Some (P div 2 ^ i)
            \<and> even (P div 2 ^ i)
            \<and> strided_conv_length pad 2 2 (P div 2 ^ i) = Some (P div 2 ^ Suc i)" if "i < n" for i
  proof -
    define d where "d = n - Suc i"
    have d: "n = i + Suc d" using that by (simp add: d_def)
    have Pi: "P = 2 ^ i * (2 ^ Suc d * q)" using q d by (simp add: power_add mult.assoc)
    have di: "P div 2 ^ i = 2 ^ Suc d * q" using Pi by simp
    have "2 ^ i dvd P" using Pi by simp
    from compress_length_loop_steps [OF this Ppos, of pad 0]
    have a: "compress_length_loop pad 0 (int i) P = Some (P div 2 ^ i)" by simp
    have ev: "even (P div 2 ^ i)" using di by simp
    have pos: "0 < P div 2 ^ i" using di qpos by simp
    have "P = 2 ^ Suc i * (2 ^ d * q)" using q d by (simp add: power_add mult.assoc)
    then have "P div 2 ^ Suc i = 2 ^ d * q" by (simp del: power_Suc)
    moreover have "P div 2 ^ i div 2 = 2 ^ d * q" using di by simp
    ultimately have "P div 2 ^ i div 2 = P div 2 ^ Suc i" by simp
    then have c: "strided_conv_length pad 2 2 (P div 2 ^ i) = Some (P div 2 ^ Suc i)"
      using strided_conv_length_even [OF ev pos, of pad] by simp
    show ?thesis using a ev c by simp
  qed
  have steps_int: "num_compress_steps hp \<le> 0 \<or> num_compress_steps hp = int n"
    using assms(2) by auto
  have comp: "compress_length pad hp P = Some (P div 2 ^ n)"
  proof (cases "num_compress_steps hp \<le> 0")
    case True
    then have "n = 0" using assms(2) by simp
    then show ?thesis using True
      by (simp add: compress_length_def compress_length_loop.simps [of _ 0])
  next
    case False
    then have "num_compress_steps hp = int (0 + n)" using assms(2) by simp
    then show ?thesis
      using compress_length_loop_steps [OF pd(1) Ppos, of pad 0]
      by (simp add: compress_length_def)
  qed
  have dec: "ae_decompress_length hp (P div 2 ^ n) = P"
  proof (cases "num_compress_steps hp \<le> 0")
    case True
    then have "n = 0" using assms(2) by simp
    then show ?thesis using True
      by (simp add: ae_decompress_length_def ae_decompress_length_loop.simps [of 0])
  next
    case False
    then have "num_compress_steps hp = int (0 + n)" using assms(2) by simp
    then show ?thesis
      using ae_decompress_length_loop_steps [of 0 n "P div 2 ^ n"] q
      by (simp add: ae_decompress_length_def)
  qed
  have k: "(if 0 \<le> num_compress_steps hp then 2 ^ nat (num_compress_steps hp) else 1) = (2::nat) ^ n"
    using assms(2) by simp
  have "pad_to_same_length targets_length targets_length (2 ^ n) = (P, P)"
    using pd(4) assms(3) by (cases "pad_to_same_length targets_length targets_length (2 ^ n)") simp
  then have all: "ae_transformer_internal_lengths pad hp targets_length = Some (P, P div 2 ^ n, P)"
    unfolding ae_transformer_internal_lengths_def k Let_def by (simp add: comp dec)
  show ?thesis
    by (intro conjI allI impI pd(1) pd(2) pd(3) comp dec all) (simp_all add: steps)
qed

theorem compress_length_divisible_witness:
  "(0::nat) < 5 \<and> (2::nat) = nat (num_compress_steps example_hparams)
   \<and> (8::nat) = fst (pad_to_same_length 5 5 (2 ^ 2))
   \<and> (2::nat) ^ 2 dvd 8 \<and> (5::nat) \<le> 8 \<and> (8::nat) < 5 + 2 ^ 2
   \<and> compress_length_loop VALID 0 (int 1) 8 = Some (8 div 2 ^ 1)
   \<and> even ((8::nat) div 2 ^ 1)
   \<and> strided_conv_length VALID 2 2 (8 div 2 ^ 1) = Some (8 div 2 ^ Suc 1)
   \<and> compress_length VALID example_hparams 8 = Some (8 div 2 ^ 2)
   \<and> ae_decompress_length example_hparams (8 div 2 ^ 2) = 8
   \<and> ae_transformer_internal_lengths VALID example_hparams 5 = Some (8, 8 div 2 ^ 2, 8)"
proof -
  have h1: "(0::nat) < 5" by simp
  have h2: "(2::nat) = nat (num_compress_steps example_hparams)"
    by (simp add: example_hparams_def)
  have h3: "(8::nat) = fst (pad_to_same_length 5 5 (2 ^ 2))"
    by (simp add: pad_to_same_length_def Let_def)
  note t = compress_length_divisible [OF h1 h2 h3, of VALID]
  have one: "(1::nat) < 2" by simp
  note s = t [THEN conjunct2, THEN conjunct2, THEN conjunct2, THEN conjunct1, rule_format, OF one]
  note r = t [THEN conjunct2, THEN conjunct2, THEN conjunct2, THEN conjunct2]
  show ?thesis
    by (intro conjI h1 h2 h3 t [THEN conjunct1] t [THEN conjunct2, THEN conjunct1]
          t [THEN conjunct2, THEN conjunct2, THEN conjunct1]
          s [THEN conjunct1] s [THEN conjunct2, THEN conjunct1] s [THEN conjunct2, THEN conjunct2]
          r [THEN conjunct1] r [THEN conjunct2, THEN conjunct1] r [THEN conjunct2, THEN conjunct2])
qed

subsection \<open>The features dictionary around infer\<close>

lemma map_of_update_other:
  "k \<noteq> k' \<Longrightarrow> map_of (AList.update k v al) k' = map_of al k'"
  by (simp add: update_conv')

lemma map_of_update_same: "map_of (AList.update k v al) k = Some v"
  by (simp add: update_conv')

lemma sample_once_inputs:
  assumes "\<forall>fs. map_of (fst (model_fn M fs)) ''inputs'' = map_of fs ''inputs''"
  shows "map_of (fst (sample_once M fs)) ''inputs'' = map_of fs ''inputs''"
proof -
  obtain fs' r where m: "model_fn M fs = (fs', r)" by (cases "model_fn M fs")
  have "map_of fs' ''inputs'' = map_of fs ''inputs''" using assms [rule_format, of fs] m by simp
  then show ?thesis by (simp add: sample_once_def m split: sum.splits)
qed

lemma more_steps_inputs:
  assumes "\<forall>fs. map_of (fst (model_fn M fs)) ''inputs'' = map_of fs ''inputs''"
  shows "map_of (fst (more_steps M n fs samples)) ''inputs'' = map_of fs ''inputs''"
proof (induction n arbitrary: fs samples)
  case 0
  then show ?case by simp
next
  case (Suc n)
  let ?fs = "AList.update ''targets'' samples fs"
  obtain fs' r where s: "sample_once M ?fs = (fs', r)" by (cases "sample_once M ?fs")
  have "map_of fs' ''inputs'' = map_of ?fs ''inputs''"
    using sample_once_inputs [OF assms, of ?fs] s by simp
  also have "\<dots> = map_of fs ''inputs''" by (simp add: map_of_update_other)
  finally show ?case using Suc.IH [of fs'] by (simp add: s split: sum.splits)
qed

lemma infer_body_inputs:
  assumes frame: "\<forall>fs. map_of (fst (model_fn M fs)) ''inputs'' = map_of fs ''inputs''"
    and ret: "infer_body M fs0 = (fs', Inr samples)"
  shows "map_of fs' ''inputs'' = map_of fs0 ''inputs''"
proof -
  have run: "map_of fs3 ''inputs'' = map_of fs1 ''inputs''"
    if "sample_once M (AList.update ''targets'' initial fs1) = (fs2, Inr s)"
      and "more_steps M 2 fs2 s = (fs3, r)" for fs1 fs2 fs3 initial s r
  proof -
    have "map_of fs2 ''inputs'' = map_of (AList.update ''targets'' initial fs1) ''inputs''"
      using sample_once_inputs [OF frame, of "AList.update ''targets'' initial fs1"] that(1) by simp
    moreover have "map_of fs3 ''inputs'' = map_of fs2 ''inputs''"
      using more_steps_inputs [OF frame, of 2 fs2 s] that(2) by simp
    ultimately show ?thesis by (simp add: map_of_update_other)
  qed
  show ?thesis
  proof (cases "map_of fs0 ''inputs''")
    case None
    then show ?thesis
      using ret run [of _ fs0]
      by (auto simp: infer_body_def split: sum.splits prod.splits option.splits)
  next
    case (Some inp)
    show ?thesis
    proof (cases "length (shape inp) < 4")
      case False
      then show ?thesis
        using ret run [of _ fs0] Some
        by (auto simp: infer_body_def split: sum.splits prod.splits option.splits)
    next
      case True
      then show ?thesis
        using ret Some
        by (auto simp: infer_body_def map_of_update_same
              split: sum.splits prod.splits option.splits)
    qed
  qed
qed


text \<open>
  C10, as amended.  After every call of \<open>infer\<close> that returns, the value stored in
  the caller's features at \<open>"inputs"\<close> is the value it held before the call (given
  that \<open>model_fn\<close> does not itself assign to that key): an input of rank below 4 is
  replaced by its expansion for the computation and written back before the return.
\<close>

theorem infer_restores_inputs:
  assumes "\<forall>fs. map_of (fst (model_fn M fs)) ''inputs'' = map_of fs ''inputs''"
    and "infer M features = (features', Inr samples)"
  shows "map_option (\<lambda>fs. map_of fs ''inputs'') features'
       = map_option (\<lambda>fs. map_of fs ''inputs'') features"
proof (cases features)
  case None
  then show ?thesis using assms(2) by (simp add: infer_def)
next
  case (Some fs)
  show ?thesis
  proof (cases "fs = []")
    case True
    then show ?thesis using assms(2) Some by (simp add: infer_def)
  next
    case False
    obtain fs' r where b: "infer_body M fs = (fs', r)" by (cases "infer_body M fs")
    have "features' = Some fs'" and "r = Inr samples"
      using assms(2) Some False b by (simp_all add: infer_def)
    then show ?thesis using infer_body_inputs [OF assms(1), of fs fs' samples] b Some by simp
  qed
qed

lemma example_model_frame:
  "\<forall>fs. map_of (fst (model_fn example_model fs)) ''inputs'' = map_of fs ''inputs''"
  by (simp add: example_model_def)

lemma example_infer:
  "infer example_model (Some example_features)
     = (Some [(''inputs'', \<lparr>shape = [1, 2, 1], elems = [3, 4]\<rparr>),
              (''targets'', \<lparr>shape = [1, 2, 1, 1], elems = [3, 4]\<rparr>)],
        Inr \<lparr>shape = [1, 2, 1, 1], elems = [3, 4]\<rparr>)"
  by (simp add: infer_def infer_body_def example_features_def example_model_def
        tf_expand_dims_def initial_output_def shape_at_def tf_zeros_def sample_once_def
        numeral_2_eq_2)

theorem infer_restores_inputs_witness:
  "(\<forall>fs. map_of (fst (model_fn example_model fs)) ''inputs'' = map_of fs ''inputs'')
   \<and> infer example_model (Some example_features)
       = (Some [(''inputs'', \<lparr>shape = [1, 2, 1], elems = [3, 4]\<rparr>),
                (''targets'', \<lparr>shape = [1, 2, 1, 1], elems = [3, 4]\<rparr>)],
          Inr \<lparr>shape = [1, 2, 1, 1], elems = [3, 4]\<rparr>)
   \<and> map_option (\<lambda>fs. map_of fs ''inputs'')
        (Some [(''inputs'', \<lparr>shape = [1, 2, 1], elems = [3, 4 :: real]\<rparr>),
               (''targets'', \<lparr>shape = [1, 2, 1, 1], elems = [3, 4]\<rparr>)])
       = map_option (\<lambda>fs. map_of fs ''inputs'') (Some example_features)"
  by (intro conjI example_model_frame example_infer
        infer_restores_inputs [OF example_model_frame example_infer])


text \<open>
  When \<open>model_fn\<close> raises, the exception leaves \<open>infer\<close> before the write-back: the
  dictionary then still holds the expanded input.
\<close>

lemma infer_raising_keeps_expanded:
  "infer (example_model\<lparr>model_fn := \<lambda>fs. (fs, Inl Raised)\<rparr>) (Some example_features)
     = (Some [(''inputs'', \<lparr>shape = [1, 2, 1, 1], elems = [3, 4]\<rparr>),
              (''targets'', \<lparr>shape = [1, 1, 1, 1], elems = [0]\<rparr>)],
        Inl Raised)"
  by (simp add: infer_def infer_body_def example_features_def example_model_def
        tf_expand_dims_def initial_output_def shape_at_def tf_zeros_def sample_once_def)

text \<open>
  So the value at \<open>"inputs"\<close> is not the same after every call: there is no
  \<open>try ... finally\<close> around the computation, and after a call in which \<open>model_fn\<close>
  raises (a \<open>model_fn\<close> that leaves the dictionary alone), the caller's features hold
  the expanded tensor of shape \<open>[1, 2, 1, 1]\<close> where they held one of shape \<open>[1, 2, 1]\<close>.
\<close>

theorem infer_raising_counterexample:
  "(\<forall>fs. map_of (fst (model_fn (example_model\<lparr>model_fn := \<lambda>fs. (fs, Inl Raised)\<rparr>) fs)) ''inputs''
          = map_of fs ''inputs'')
   \<and> map_of example_features ''inputs'' = Some \<lparr>shape = [1, 2, 1], elems = [3, 4]\<rparr>
   \<and> snd (infer (example_model\<lparr>model_fn := \<lambda>fs. (fs, Inl Raised)\<rparr>) (Some example_features))
       = Inl Raised
   \<and> map_option (\<lambda>fs. map_of fs ''inputs'')
        (fst (infer (example_model\<lparr>model_fn := \<lambda>fs. (fs, Inl Raised)\<rparr>) (Some example_features)))
       = Some (Some \<lparr>shape = [1, 2, 1, 1], elems = [3, 4]\<rparr>)
   \<and> map_option (\<lambda>fs. map_of fs ''inputs'')
        (fst (infer (example_model\<lparr>model_fn := \<lambda>fs. (fs, Inl Raised)\<rparr>) (Some example_features)))
       \<noteq> map_option (\<lambda>fs. map_of fs ''inputs'') (Some example_features)"
  by (simp add: infer_raising_keeps_expanded) (simp add: example_features_def)

subsection \<open>Causality of decode\<close>

lemma agree_before_iff:
  "agree_before i x x' =
     (shape x = shape x' \<and> length (elems x) = length (elems x') \<and>
      (\<forall>idx<length (elems x). position_of (shape x) idx < i \<longrightarrow> elems x ! idx = elems x' ! idx))"
  by (auto simp: agree_before_def list_all_iff)

lemma agree_at_iff:
  "agree_at i y y' =
     (shape y = shape y' \<and> length (elems y) = length (elems y') \<and>
      (\<forall>idx<length (elems y). position_of (shape y) idx = i \<longrightarrow> elems y ! idx = elems y' ! idx))"
  by (auto simp: agree_at_def list_all_iff)

lemma same_at_rel: "same_at i r r' = rel_option (agree_at i) r r'"
  by (cases r; cases r') (simp_all add: same_at_def)

lemma rel_option_bindI:
  assumes "rel_option R r r'"
    and "\<And>x x'. R x x' \<Longrightarrow> rel_option Q (f x) (f' x')"
  shows "rel_option Q (Option.bind r f) (Option.bind r' f')"
  using assms by (cases r; cases r') simp_all

lemma position_shift:
  assumes "0 < position_of shp idx" and "S = prod_list (drop 2 shp)"
  shows "S \<le> idx" and "position_of shp (idx - S) = position_of shp idx - 1"
proof -
  let ?l = "shp ! 1"
  let ?q = "idx div S"
  have qm: "0 < ?q mod ?l" using assms by (simp add: position_of_def)
  then have q: "0 < ?q" by (cases "?q = 0") auto
  then have S: "0 < S" by (cases "S = 0") auto
  show le: "S \<le> idx" using q by (cases "idx < S") simp_all
  have d: "(idx - S) div S = ?q - 1" using le_div_geq [OF S le] by simp
  have m: "(?q - 1) mod ?l = ?q mod ?l - 1"
  proof (cases "?l = 0")
    case True
    then show ?thesis by simp
  next
    case False
    define t where "t = ?q div ?l"
    define j where "j = ?q mod ?l"
    have j: "0 < j" "j < ?l" using qm False by (simp_all add: j_def)
    have "?q = t * ?l + j" unfolding t_def j_def by (rule div_mult_mod_eq [symmetric])
    then have "?q - 1 = t * ?l + (j - 1)" using j(1) by simp
    then have "(?q - 1) mod ?l = (t * ?l + (j - 1)) mod ?l" by simp
    also have "\<dots> = (j - 1) mod ?l" by (rule mod_mult_self3)
    also have "\<dots> = j - 1" using j by simp
    finally show ?thesis by (simp add: j_def)
  qed
  show "position_of shp (idx - S) = position_of shp idx - 1"
    using d m assms(2) by (simp add: position_of_def)
qed


lemma dropout_agree:
  assumes "wf_tensor x" and "shape x = s" and "agree_before k x x'"
  shows "rel_option (\<lambda>y y'. wf_tensor y \<and> shape y = s \<and> agree_before k y y')
           (nn_dropout rng x kp) (nn_dropout rng x' kp)"
  using assms by (auto simp: nn_dropout_def agree_before_iff wf_tensor_def)

lemma shift_right_agree:
  assumes "wf_tensor x" and "shape x = s" and "agree_before k x x'"
  shows "rel_option (\<lambda>y y'. wf_tensor y \<and> shape y = s \<and> agree_before (Suc k) y y')
           (shift_right x pv) (shift_right x' pv)"
proof -
  have sh: "shape x' = shape x" and len: "length (elems x') = length (elems x)"
    and eq: "\<And>idx. idx < length (elems x) \<Longrightarrow> position_of (shape x) idx < k
               \<Longrightarrow> elems x ! idx = elems x' ! idx"
    using assms(3) by (simp_all add: agree_before_iff)
  have el: "elems x ! (idx - prod_list (drop 2 (shape x)))
          = elems x' ! (idx - prod_list (drop 2 (shape x)))"
    if "idx < length (elems x)" and "position_of (shape x) idx \<noteq> 0"
      and "position_of (shape x) idx < Suc k" for idx
  proof -
    have p: "0 < position_of (shape x) idx" using that(2) by simp
    note ps = position_shift [OF p refl]
    have "idx - prod_list (drop 2 (shape x)) < length (elems x)" using that(1) by simp
    moreover have "position_of (shape x) (idx - prod_list (drop 2 (shape x))) < k"
      using ps(2) that(3) p by simp
    ultimately show ?thesis by (rule eq)
  qed
  show ?thesis
    using assms(1,2) el
    by (auto simp: shift_right_def sh len Let_def agree_before_iff wf_tensor_def
          split: option.splits)
qed

lemma tadd_agree:
  assumes "wf_tensor x" and "shape x = s" and "agree_before k x x'"
    and "wf_tensor a" and "shape a = s"
  shows "rel_option (\<lambda>y y'. wf_tensor y \<and> shape y = s \<and> agree_before k y y')
           (tadd x a) (tadd x' a)"
proof -
  have sh: "shape x' = shape x" and len: "length (elems x') = length (elems x)"
    using assms(3) by (simp_all add: agree_before_iff)
  have wf': "wf_tensor x'" using assms(1) sh len by (simp add: wf_tensor_def)
  have la: "length (elems a) = length (elems x)" using assms by (simp add: wf_tensor_def)
  have 1: "tadd x a = Some \<lparr>shape = shape x, elems = map2 (+) (elems x) (elems a)\<rparr>"
    unfolding tadd_def using assms by (intro tbin_same) simp_all
  have 2: "tadd x' a = Some \<lparr>shape = shape x', elems = map2 (+) (elems x') (elems a)\<rparr>"
    unfolding tadd_def using assms wf' sh by (intro tbin_same) simp_all
  show ?thesis
    using assms(1,2,3) la
    by (auto simp: 1 2 sh len agree_before_iff wf_tensor_def)
qed

lemma squeeze_agree:
  assumes "wf_tensor x" and "shape x = [b, l, 1, h]" and "agree_before k x x'"
  shows "rel_option (\<lambda>y y'. wf_tensor y \<and> shape y = [b, l, h] \<and> agree_before k y y')
           (tf_squeeze x 2) (tf_squeeze x' 2)"
proof -
  have sh: "shape x' = shape x" using assms(3) by (simp add: agree_before_iff)
  show ?thesis
    using assms
    by (auto simp: tf_squeeze_def sh agree_before_iff wf_tensor_def position_of_def)
qed

lemma timing_agree:
  assumes "wf_tensor x" and "shape x = [b, l, h]" and "agree_before k x x'"
  shows "rel_option (\<lambda>y y'. wf_tensor y \<and> shape y = [b, l, h] \<and> agree_before k y y')
           (add_timing_signal_1d timing x) (add_timing_signal_1d timing x')"
proof -
  have sh: "shape x' = shape x" using assms(3) by (simp add: agree_before_iff)
  show ?thesis
    using assms
    by (auto simp: add_timing_signal_1d_def sh agree_before_iff wf_tensor_def)
qed

lemma lower_triangle_allowed:
  assumes "i < l" and "j < l"
  shows "allowed (attention_bias_lower_triangle l) l i j = (j \<le> i)"
proof -
  have "i * l + j < l * l"
  proof -
    have "i * l + j < i * l + l" using assms(2) by simp
    also have "\<dots> = Suc i * l" by simp
    also have "\<dots> \<le> l * l" using assms(1) by (metis Suc_leI mult_le_mono1)
    finally show ?thesis .
  qed
  then show ?thesis using assms
    by (simp add: allowed_def attention_bias_lower_triangle_def)
qed


lemma decoder_agree:
  assumes "respects_bias transformer_decoder (attention_bias_lower_triangle l)"
    and "i < l" and "wf_tensor y" and "shape y = [b, l, h]" and "agree_before (Suc i) y y'"
  shows "rel_option (agree_at i)
           (transformer_decoder y c (attention_bias_lower_triangle l) ed hp)
           (transformer_decoder y' c (attention_bias_lower_triangle l) ed hp)"
proof -
  have sh: "shape y = shape y'" and len: "length (elems y) = length (elems y')"
    and eq: "\<And>idx. idx < length (elems y) \<Longrightarrow> position_of (shape y) idx < Suc i
               \<Longrightarrow> elems y ! idx = elems y' ! idx"
    using assms(5) by (simp_all add: agree_before_iff)
  have wf': "wf_tensor y'" using assms(3) sh len by (simp add: wf_tensor_def)
  have l1: "shape y ! 1 = l" using assms(4) by simp
  have pre: "elems y ! idx = elems y' ! idx"
    if "idx < length (elems y)"
      and "allowed (attention_bias_lower_triangle l) (shape y ! 1) i (position_of (shape y) idx)"
    for idx
  proof -
    have "position_of (shape y) idx < l" using assms(2) l1 by (simp add: position_of_def)
    then have "position_of (shape y) idx \<le> i"
      using that(2) lower_triangle_allowed [OF assms(2)] l1 by simp
    then show ?thesis using eq [OF that(1)] by simp
  qed
  have "same_at i (transformer_decoder y c (attention_bias_lower_triangle l) ed hp)
          (transformer_decoder y' c (attention_bias_lower_triangle l) ed hp)"
    using assms(1) [unfolded respects_bias_def, rule_format, of y y' i c ed hp]
      assms(2,3,4) wf' sh l1 pre by simp
  then show ?thesis by (simp add: same_at_rel)
qed

text \<open>
  C5.  With a decoder whose self-attention respects its bias, \<open>decode\<close> is causal in
  \<open>gold\<close>: two gold tensors that agree at all positions before \<open>i\<close> give outputs that
  agree at position \<open>i\<close> (or both calls raise).  The gold values at positions \<open>i\<close> and
  later do not reach the output at position \<open>i\<close>.
\<close>

theorem decode_causal:
  assumes "wf_tensor gold" and "shape gold = [b, l, 1, h]"
    and "agree_before i gold gold'" and "i < l"
    and "case cond_add of None \<Rightarrow> True | Some a \<Rightarrow> wf_tensor a \<and> shape a = [b, l, 1, h]"
    and "respects_bias transformer_decoder (attention_bias_lower_triangle l)"
  shows "same_at i
           (decode transformer_decoder timing rng cond_vec cond_add gold c ed hp)
           (decode transformer_decoder timing rng cond_vec cond_add gold' c ed hp)"
proof -
  let ?s = "[b, l, 1, h]"
  let ?c = "case c of None \<Rightarrow> Some None
            | Some ct \<Rightarrow> if 3 < length (shape ct) then map_option Some (tf_squeeze ct 2)
                         else Some (Some ct)"
  let ?run = "\<lambda>g y. shape_at g 1 \<bind>
                (\<lambda>len. let bias = attention_bias_lower_triangle (nat len)
                       in ?c \<bind> (\<lambda>c. transformer_decoder y c bias ed hp))"
  let ?time = "\<lambda>g y. add_timing_signal_1d timing y \<bind> ?run g"
  let ?squeeze = "\<lambda>g y. tf_squeeze y 2 \<bind> ?time g"
  let ?add = "\<lambda>g y. (case cond_add of None \<Rightarrow> Some y | Some a \<Rightarrow> tadd y a) \<bind> ?squeeze g"
  let ?shift = "\<lambda>g y. shift_right y cond_vec \<bind> ?add g"
  have sh': "shape gold' = ?s" using assms(2,3) by (simp add: agree_before_iff)
  have len: "shape_at gold 1 = Some (int l)" "shape_at gold' 1 = Some (int l)"
    using assms(2) sh' by (simp_all add: shape_at_def)
  have run: "rel_option (agree_at i) (?run gold y) (?run gold' y')"
    if "wf_tensor y \<and> shape y = [b, l, h] \<and> agree_before (Suc i) y y'" for y y'
  proof -
    note fin = decoder_agree [OF assms(6) assms(4), of y b h y']
    show ?thesis unfolding len Let_def using that by (cases ?c) (simp_all add: fin)
  qed
  have time: "rel_option (agree_at i) (?time gold y) (?time gold' y')"
    if "wf_tensor y \<and> shape y = [b, l, h] \<and> agree_before (Suc i) y y'" for y y'
    using that by (intro rel_option_bindI [OF timing_agree] run) simp_all
  have squeeze: "rel_option (agree_at i) (?squeeze gold y) (?squeeze gold' y')"
    if "wf_tensor y \<and> shape y = ?s \<and> agree_before (Suc i) y y'" for y y'
    using that by (intro rel_option_bindI [OF squeeze_agree] time) simp_all
  have add: "rel_option (agree_at i) (?add gold y) (?add gold' y')"
    if y: "wf_tensor y \<and> shape y = ?s \<and> agree_before (Suc i) y y'" for y y'
  proof (rule rel_option_bindI [OF _ squeeze])
    show "rel_option (\<lambda>y y'. wf_tensor y \<and> shape y = ?s \<and> agree_before (Suc i) y y')
        (case cond_add of None \<Rightarrow> Some y | Some a \<Rightarrow> tadd y a)
        (case cond_add of None \<Rightarrow> Some y' | Some a \<Rightarrow> tadd y' a)"
    proof (cases cond_add)
      case None
      then show ?thesis using y by simp
    next
      case (Some a)
      then show ?thesis using tadd_agree [of y ?s "Suc i" y' a] y assms(5) by simp
    qed
  qed
  have shift: "rel_option (agree_at i) (?shift gold y) (?shift gold' y')"
    if "wf_tensor y \<and> shape y = ?s \<and> agree_before i y y'" for y y'
    using that by (intro rel_option_bindI [OF shift_right_agree] add) simp_all
  have "rel_option (agree_at i)
           (decode transformer_decoder timing rng cond_vec cond_add gold c ed hp)
           (decode transformer_decoder timing rng cond_vec cond_add gold' c ed hp)"
    unfolding decode_def
    by (rule rel_option_bindI [OF dropout_agree [OF assms(1,2,3)] shift])
  then show ?thesis by (simp add: same_at_rel)
qed

lemma example_decoder_respects: "respects_bias example_decoder bias"
  unfolding respects_bias_def
proof (intro allI impI, elim conjE)
  fix x x' :: rtensor and c ed :: "rtensor option" and hp :: hparams and i :: nat
  assume wf: "wf_tensor x" and wf': "wf_tensor x'" and sh: "shape x = shape x'"
    and r3: "length (shape x) = 3" and i: "i < shape x ! 1"
    and eq: "\<forall>idx<length (elems x). allowed bias (shape x ! 1) i (position_of (shape x) idx)
               \<longrightarrow> elems x ! idx = elems x' ! idx"
  obtain b l h where s: "shape x = [b, l, h]"
    using r3 by (cases "shape x"; cases "tl (shape x)"; cases "tl (tl (shape x))") auto
  have s': "shape x' = [b, l, h]" using sh s by simp
  have len: "length (elems x) = b * l * h" "length (elems x') = b * l * h"
    using wf wf' by (simp_all add: wf_tensor_def s s')
  have tm: "(if allowed bias l i j then elems x ! ((idx div (l * h) * l + j) * h + idx mod h) else 0)
            = (if allowed bias l i j then elems x' ! ((idx div (l * h) * l + j) * h + idx mod h) else 0)"
    if idx: "idx < b * l * h" and j: "j < l" for idx j
  proof (cases "allowed bias l i j")
    case False
    then show ?thesis by simp
  next
    case True
    let ?n = "idx div (l * h)"
    let ?k = "idx mod h"
    let ?m = "(?n * l + j) * h + ?k"
    have hpos: "0 < h" using idx by (cases h) auto
    have k: "?k < h" using hpos by simp
    have n: "?n < b" using idx by (simp add: less_mult_imp_div_less mult.assoc)
    have "?n * l + j < ?n * l + l" using j by simp
    also have "\<dots> = Suc ?n * l" by simp
    also have "\<dots> \<le> b * l" using n by (intro mult_le_mono1) simp
    finally have nl: "?n * l + j < b * l" .
    have "?m < (?n * l + j) * h + h" using k by simp
    also have "\<dots> = Suc (?n * l + j) * h" by simp
    also have "\<dots> \<le> b * l * h" using nl by (intro mult_le_mono1) simp
    finally have m: "?m < b * l * h" .
    have "?m div h = ?n * l + j" using k hpos by simp
    then have pos: "position_of (shape x) ?m = j" using j by (simp add: position_of_def s)
    have "elems x ! ?m = elems x' ! ?m"
      using eq [rule_format, of ?m] m pos True by (simp add: len s)
    then show ?thesis by simp
  qed
  define F where "F = (\<lambda>(t::rtensor) idx. sum_list (map (\<lambda>j.
      if allowed bias l (position_of [b, l, h] idx) j
      then elems t ! ((idx div (l * h) * l + j) * h + idx mod h) else 0) [0..<l]))"
  have out: "example_decoder x c bias ed hp
      = Some \<lparr>shape = [b, l, h], elems = map (F x) [0..<b * l * h]\<rparr>"
    by (simp add: example_decoder_def s len F_def cong: if_cong)
  have out': "example_decoder x' c bias ed hp
      = Some \<lparr>shape = [b, l, h], elems = map (F x') [0..<b * l * h]\<rparr>"
    by (simp add: example_decoder_def s' len F_def cong: if_cong)
  have "F x idx = F x' idx" if "idx < b * l * h" and p: "position_of [b, l, h] idx = i" for idx
  proof -
    have M: "map (\<lambda>j. if allowed bias l i j
          then elems x ! ((idx div (l * h) * l + j) * h + idx mod h) else 0) [0..<l]
        = map (\<lambda>j. if allowed bias l i j
          then elems x' ! ((idx div (l * h) * l + j) * h + idx mod h) else 0) [0..<l]"
      by (rule map_cong [OF refl]) (use tm [OF that(1)] in simp)
    show ?thesis unfolding F_def p by (rule arg_cong [where f = sum_list, OF M])
  qed
  then show "same_at i (example_decoder x c bias ed hp) (example_decoder x' c bias ed hp)"
    unfolding out out' by (simp add: same_at_def agree_at_iff)
qed


lemma example_decode:
  "decode example_decoder (\<lambda>n p k. 0) (\<lambda>i. 1 / 2) None None example_gold None None example_hparams
     = Some \<lparr>shape = [1, 3, 1], elems = [0, 5, 12]\<rparr>"
  "decode example_decoder (\<lambda>n p k. 0) (\<lambda>i. 1 / 2) None None example_gold' None None example_hparams
     = Some \<lparr>shape = [1, 3, 1], elems = [0, 5, 14]\<rparr>"
  by code_simp+

theorem decode_causal_witness:
  "wf_tensor example_gold \<and> shape example_gold = [1, 3, 1, 1]
   \<and> agree_before 1 example_gold example_gold' \<and> (1::nat) < 3
   \<and> respects_bias example_decoder (attention_bias_lower_triangle 3)
   \<and> same_at 1
        (decode example_decoder (\<lambda>n p k. 0) (\<lambda>i. 1 / 2) None None example_gold None None
           example_hparams)
        (decode example_decoder (\<lambda>n p k. 0) (\<lambda>i. 1 / 2) None None example_gold' None None
           example_hparams)
   \<and> decode example_decoder (\<lambda>n p k. 0) (\<lambda>i. 1 / 2) None None example_gold None None
        example_hparams = Some \<lparr>shape = [1, 3, 1], elems = [0, 5, 12]\<rparr>
   \<and> decode example_decoder (\<lambda>n p k. 0) (\<lambda>i. 1 / 2) None None example_gold' None None
        example_hparams = Some \<lparr>shape = [1, 3, 1], elems = [0, 5, 14]\<rparr>"
proof -
  have h1: "wf_tensor example_gold" by (simp add: example_gold_def wf_tensor_def)
  have h2: "shape example_gold = [1, 3, 1, 1]" by (simp add: example_gold_def)
  have h3: "agree_before 1 example_gold example_gold'"
    by code_simp
  have h4: "(1::nat) < 3" by simp
  have h5: "case None :: rtensor option of None \<Rightarrow> True
            | Some a \<Rightarrow> wf_tensor a \<and> shape a = [1, 3, 1, 1]" by simp
  note h6 = example_decoder_respects [of "attention_bias_lower_triangle 3"]
  note t = decode_causal [OF h1 h2 h3 h4 h5 h6, of "\<lambda>n p k. 0" "\<lambda>i. 1 / 2" None None None
      example_hparams]
  show ?thesis by (intro conjI h1 h2 h3 h4 h6 t example_decode)
qed

subsection \<open>The functions applied by ae_transformer_internal\<close>






end
